theory Spec2Isabelle
  imports Main "HOL-Library.Word" "HOL-Library.Signed_Division"
begin

unbundle bit_operations_syntax

section \<open>The process handler registry (\<^verbatim>\<open>lxmonika/ProcessMap.cpp\<close>)\<close>

subsection \<open>Data\<close>

text \<open>
  A process is identified by its \<^verbatim>\<open>PEPROCESS\<close> pointer, which the registry only compares
  (as a \<^verbatim>\<open>ULONG_PTR\<close>) and never dereferences. Handlers are \<^verbatim>\<open>DWORD\<close>s, statuses are
  \<^verbatim>\<open>NTSTATUS\<close> values (signed 32-bit).
\<close>

type_synonym PEPROCESS = "64 word"
type_synonym DWORD = "32 word"
type_synonym NTSTATUS = "32 word"

definition STATUS_SUCCESS :: NTSTATUS where
  "STATUS_SUCCESS = 0x00000000"

definition STATUS_NOT_IMPLEMENTED :: NTSTATUS where
  "STATUS_NOT_IMPLEMENTED = 0xC0000002"

definition STATUS_INVALID_PARAMETER :: NTSTATUS where
  "STATUS_INVALID_PARAMETER = 0xC000000D"

definition STATUS_INSUFFICIENT_RESOURCES :: NTSTATUS where
  "STATUS_INSUFFICIENT_RESOURCES = 0xC000009A"

definition STATUS_NOT_FOUND :: NTSTATUS where
  "STATUS_NOT_FOUND = 0xC0000225"

definition STATUS_ALREADY_REGISTERED :: NTSTATUS where
  "STATUS_ALREADY_REGISTERED = 0xC0000718"

text \<open>\<^verbatim>\<open>NT_SUCCESS(Status)\<close> is \<^verbatim>\<open>((NTSTATUS)(Status)) >= 0\<close>.\<close>

definition NT_SUCCESS :: "NTSTATUS \<Rightarrow> bool" where
  "NT_SUCCESS status = (0 \<le> sint status)"

text \<open>
  Modelled from the spec: the declaration of \<^verbatim>\<open>PROCESS_HANDLER_INFORMATION\<close> and of the node
  type \<^verbatim>\<open>_NODE\<close> is in \<^verbatim>\<open>ProcessMap.h\<close>, which is not among the sources. The fields are the
  ones \<^verbatim>\<open>ProcessMap.cpp\<close> reads and writes, with the types of the spec's
  \<^verbatim>\<open>ProcessHandlerEntry\<close> (\<^verbatim>\<open>currentHandler\<close>, \<^verbatim>\<open>hasParentHandler\<close>,
  \<^verbatim>\<open>hasInternalParentHandler\<close>, \<^verbatim>\<open>parentHandler\<close>).
\<close>

record PROCESS_HANDLER_INFORMATION =
  Handler :: DWORD
  HasParentHandler :: bool
  HasInternalParentHandler :: bool
  ParentHandler :: DWORD

record NODE =
  Key :: PEPROCESS
  Value :: PROCESS_HANDLER_INFORMATION

datatype RTL_GENERIC_COMPARE_RESULTS = GenericLessThan | GenericGreaterThan | GenericEqual

datatype FAST_MUTEX = FastMutexFree | FastMutexOwned

text \<open>
  The object itself: the table and the mutex. The table's elements are kept in the order
  of the comparison routine, as an in-order walk of the balanced tree gives them. A pointer
  to an element is its position in that sequence; the source never keeps one across an
  insertion or a deletion.
\<close>

record ProcessMap =
  m_table :: "NODE list"
  m_mutex :: FAST_MUTEX

subsection \<open>The callbacks of the table\<close>

definition CompareRoutine :: "NODE \<Rightarrow> NODE \<Rightarrow> RTL_GENERIC_COMPARE_RESULTS" where
  "CompareRoutine FirstNode SecondNode =
     (if Key FirstNode = Key SecondNode then GenericEqual
      else if Key FirstNode > Key SecondNode then GenericGreaterThan
      else GenericLessThan)"

subsection \<open>The generic table primitive\<close>

text \<open>
  The \<^verbatim>\<open>RtlXxxGenericTableAvl\<close> routines belong to the host kernel. They are modelled by
  their contract over the ordered sequence of elements: every decision they take is a call
  of the comparison routine with the caller's buffer first and the stored element second.
  Whether the allocation callback (\<^verbatim>\<open>ExAllocatePoolZero\<close>) delivers memory is the
  argument \<open>alloc\<close>; the primitive only allocates when no equal element is stored.
\<close>

definition RtlInitializeGenericTableAvl :: "NODE list" where
  "RtlInitializeGenericTableAvl = []"

fun RtlLookupElementGenericTableAvl :: "NODE list \<Rightarrow> NODE \<Rightarrow> nat option" where
  "RtlLookupElementGenericTableAvl [] Buffer = None"
| "RtlLookupElementGenericTableAvl (n # ns) Buffer =
     (case CompareRoutine Buffer n of
        GenericEqual \<Rightarrow> Some 0
      | GenericLessThan \<Rightarrow> None
      | GenericGreaterThan \<Rightarrow> map_option Suc (RtlLookupElementGenericTableAvl ns Buffer))"

text \<open>The result is the pointer to the element (or NULL), \<^verbatim>\<open>*NewElement\<close> and the table.\<close>

fun RtlInsertElementGenericTableAvl ::
  "NODE list \<Rightarrow> NODE \<Rightarrow> bool \<Rightarrow> nat option \<times> bool \<times> NODE list" where
  "RtlInsertElementGenericTableAvl [] Buffer alloc =
     (if alloc then (Some 0, True, [Buffer]) else (None, False, []))"
| "RtlInsertElementGenericTableAvl (n # ns) Buffer alloc =
     (case CompareRoutine Buffer n of
        GenericEqual \<Rightarrow> (Some 0, False, n # ns)
      | GenericLessThan \<Rightarrow>
          (if alloc then (Some 0, True, Buffer # n # ns) else (None, False, n # ns))
      | GenericGreaterThan \<Rightarrow>
          (case RtlInsertElementGenericTableAvl ns Buffer alloc of
             (p, new, ns') \<Rightarrow> (map_option Suc p, new, n # ns')))"

fun RtlDeleteElementGenericTableAvl :: "NODE list \<Rightarrow> NODE \<Rightarrow> bool \<times> NODE list" where
  "RtlDeleteElementGenericTableAvl [] Buffer = (False, [])"
| "RtlDeleteElementGenericTableAvl (n # ns) Buffer =
     (case CompareRoutine Buffer n of
        GenericEqual \<Rightarrow> (True, ns)
      | GenericLessThan \<Rightarrow> (False, n # ns)
      | GenericGreaterThan \<Rightarrow>
          (case RtlDeleteElementGenericTableAvl ns Buffer of (r, ns') \<Rightarrow> (r, n # ns')))"

text \<open>Enumeration with \<^verbatim>\<open>Restart = TRUE\<close>, the only use the source makes of it.\<close>

definition RtlEnumerateGenericTableAvl_restart :: "NODE list \<Rightarrow> nat option" where
  "RtlEnumerateGenericTableAvl_restart t = (case t of [] \<Rightarrow> None | n # ns \<Rightarrow> Some 0)"

definition ExInitializeFastMutex :: FAST_MUTEX where
  "ExInitializeFastMutex = FastMutexFree"

subsection \<open>The methods of \<^verbatim>\<open>ProcessMap\<close>\<close>

definition Initialize :: "ProcessMap \<Rightarrow> ProcessMap" where
  "Initialize pm =
     pm\<lparr>m_table := RtlInitializeGenericTableAvl, m_mutex := ExInitializeFastMutex\<rparr>"

text \<open>
  \<^verbatim>\<open>ProcessMap::operator[]\<close>. The probe node has only its key set; the other members are
  zero-initialised by the designated initialiser.
\<close>

definition zero_information :: PROCESS_HANDLER_INFORMATION where
  "zero_information =
     \<lparr>Handler = 0, HasParentHandler = False, HasInternalParentHandler = False,
      ParentHandler = 0\<rparr>"

definition ProcessMap_subscript :: "ProcessMap \<Rightarrow> PEPROCESS \<Rightarrow> nat option" where
  "ProcessMap_subscript pm key =
     (let node = \<lparr>Key = key, Value = zero_information\<rparr>
      in RtlLookupElementGenericTableAvl (m_table pm) node)"

text \<open>Reading through a pointer returned by \<^verbatim>\<open>operator[]\<close>.\<close>

definition deref :: "ProcessMap \<Rightarrow> nat \<Rightarrow> PROCESS_HANDLER_INFORMATION" where
  "deref pm pInfo = Value (m_table pm ! pInfo)"

text \<open>Writing through it: the node keeps its key and its place.\<close>

definition store :: "ProcessMap \<Rightarrow> nat \<Rightarrow> PROCESS_HANDLER_INFORMATION \<Rightarrow> ProcessMap" where
  "store pm pInfo v = pm\<lparr>m_table := (m_table pm)[pInfo := (m_table pm ! pInfo)\<lparr>Value := v\<rparr>]\<rparr>"

function Clear_loop :: "NODE list \<Rightarrow> NODE list" where
  "Clear_loop t =
     (case RtlEnumerateGenericTableAvl_restart t of
        None \<Rightarrow> t
      | Some pCurrentElement \<Rightarrow>
          Clear_loop (snd (RtlDeleteElementGenericTableAvl t (t ! pCurrentElement))))"
  by pat_completeness auto
termination
proof (relation "measure length")
  show "wf (measure length)" by simp
next
  fix t :: "NODE list" and p
  assume "RtlEnumerateGenericTableAvl_restart t = Some p"
  then obtain n ns where "t = n # ns" "p = 0"
    by (cases t) (auto simp: RtlEnumerateGenericTableAvl_restart_def)
  then show "(snd (RtlDeleteElementGenericTableAvl t (t ! p)), t) \<in> measure length"
    by (simp add: CompareRoutine_def)
qed

definition Clear :: "ProcessMap \<Rightarrow> ProcessMap" where
  "Clear pm = pm\<lparr>m_table := Clear_loop (m_table pm)\<rparr>"

definition ProcessBelongsToHandler :: "ProcessMap \<Rightarrow> PEPROCESS \<Rightarrow> DWORD \<Rightarrow> bool" where
  "ProcessBelongsToHandler pm process handler =
     (case ProcessMap_subscript pm process of
        None \<Rightarrow> False
      | Some pInfo \<Rightarrow> Handler (deref pm pInfo) = handler)"

text \<open>
  The two overloads of \<^verbatim>\<open>GetProcessHandler\<close>. The output argument is \<open>None\<close> for a NULL
  pointer and otherwise holds what the pointer refers to; the result carries what it
  refers to afterwards.
\<close>

definition GetProcessHandler ::
  "ProcessMap \<Rightarrow> PEPROCESS \<Rightarrow> DWORD option \<Rightarrow> NTSTATUS \<times> DWORD option" where
  "GetProcessHandler pm process handler =
     (case handler of
        None \<Rightarrow> (STATUS_INVALID_PARAMETER, handler)
      | Some old \<Rightarrow>
          (case ProcessMap_subscript pm process of
             None \<Rightarrow> (STATUS_NOT_FOUND, handler)
           | Some pInfo \<Rightarrow> (STATUS_SUCCESS, Some (Handler (deref pm pInfo)))))"

definition GetProcessHandler_information ::
  "ProcessMap \<Rightarrow> PEPROCESS \<Rightarrow> PROCESS_HANDLER_INFORMATION option
     \<Rightarrow> NTSTATUS \<times> PROCESS_HANDLER_INFORMATION option" where
  "GetProcessHandler_information pm process handlerInformation =
     (case handlerInformation of
        None \<Rightarrow> (STATUS_INVALID_PARAMETER, handlerInformation)
      | Some old \<Rightarrow>
          (case ProcessMap_subscript pm process of
             None \<Rightarrow> (STATUS_NOT_FOUND, handlerInformation)
           | Some pInfo \<Rightarrow> (STATUS_SUCCESS, Some (deref pm pInfo))))"

text \<open>
  A failed \<^verbatim>\<open>ASSERT\<close> (and the NULL dereference that would follow it) is the result
  \<open>None\<close>; a return is \<open>Some\<close> of the status and the object afterwards.
\<close>

definition RegisterProcessHandler ::
  "ProcessMap \<Rightarrow> PEPROCESS \<Rightarrow> DWORD \<Rightarrow> bool \<Rightarrow> (NTSTATUS \<times> ProcessMap) option" where
  "RegisterProcessHandler pm process handler alloc =
     (let node = \<lparr>Key = process, Value = zero_information\<lparr>Handler := handler\<rparr>\<rparr>
      in case RtlInsertElementGenericTableAvl (m_table pm) node alloc of
           (pInsertedNode, bNewEntry, table) \<Rightarrow>
             (let pm' = pm\<lparr>m_table := table\<rparr>
              in case pInsertedNode of
                   None \<Rightarrow> Some (STATUS_INSUFFICIENT_RESOURCES, pm')
                 | Some p \<Rightarrow>
                     if \<not> bNewEntry then Some (STATUS_ALREADY_REGISTERED, pm')
                     else if Handler (Value (table ! p)) = handler
                       then Some (STATUS_SUCCESS, pm')
                       else None))"

text \<open>
  \<^verbatim>\<open>SwitchProcessHandler\<close>, in two parts: the statements after \<^verbatim>\<open>pInfo\<close> has been
  obtained (the check of \<^verbatim>\<open>HasParentHandler\<close> and the four assignments, in the source's
  order, so that \<^verbatim>\<open>ParentHandler\<close> receives the handler held before the call), and the
  function itself. \<open>(DWORD)-1\<close> is \<open>- 1\<close> on 32-bit words.
\<close>

definition SwitchProcessHandler_handoff ::
  "ProcessMap \<Rightarrow> nat \<Rightarrow> bool \<Rightarrow> DWORD \<Rightarrow> (NTSTATUS \<times> ProcessMap) option" where
  "SwitchProcessHandler_handoff pm pInfo bHasInternalProvider newHandler =
     (let info = deref pm pInfo
      in if HasParentHandler info then Some (STATUS_NOT_IMPLEMENTED, pm)
         else Some (STATUS_SUCCESS,
                store pm pInfo
                  (info\<lparr>HasParentHandler := True,
                        HasInternalParentHandler := bHasInternalProvider,
                        ParentHandler := Handler info,
                        Handler := newHandler\<rparr>)))"

definition SwitchProcessHandler ::
  "ProcessMap \<Rightarrow> PEPROCESS \<Rightarrow> DWORD \<Rightarrow> bool \<Rightarrow> (NTSTATUS \<times> ProcessMap) option" where
  "SwitchProcessHandler pm process newHandler alloc =
     (case ProcessMap_subscript pm process of
        None \<Rightarrow>
          (case RegisterProcessHandler pm process (- 1) alloc of
             None \<Rightarrow> None
           | Some (status, pm') \<Rightarrow>
               if \<not> NT_SUCCESS status then Some (status, pm')
               else (case ProcessMap_subscript pm' process of
                       None \<Rightarrow> None
                     | Some pInfo \<Rightarrow>
                         SwitchProcessHandler_handoff pm' pInfo False newHandler))
      | Some pInfo \<Rightarrow> SwitchProcessHandler_handoff pm pInfo True newHandler)"

text \<open>
  \<^verbatim>\<open>UnregisterProcess\<close> leaves every member of its probe node but the key uninitialised;
  \<open>uninitialized\<close> is what the stack holds there.
\<close>

definition UnregisterProcess ::
  "ProcessMap \<Rightarrow> PEPROCESS \<Rightarrow> PROCESS_HANDLER_INFORMATION \<Rightarrow> NTSTATUS \<times> ProcessMap" where
  "UnregisterProcess pm process uninitialized =
     (let node = \<lparr>Key = process, Value = uninitialized\<rparr>
      in case RtlDeleteElementGenericTableAvl (m_table pm) node of
           (deleted, table) \<Rightarrow>
             if \<not> deleted then (STATUS_NOT_FOUND, pm\<lparr>m_table := table\<rparr>)
             else (STATUS_SUCCESS, pm\<lparr>m_table := table\<rparr>))"


subsection \<open>Sequences of operations\<close>

text \<open>
  The callers of the registry: any sequence of registrations, handoffs, removals and bulk
  clears, each with the outcome of the allocation it may need and with the stack garbage
  \<^verbatim>\<open>UnregisterProcess\<close> may see. \<open>run\<close> is \<open>None\<close> when one of the calls does not return.
\<close>

datatype operation =
    OpRegister PEPROCESS DWORD bool
  | OpSwitch PEPROCESS DWORD bool
  | OpUnregister PEPROCESS PROCESS_HANDLER_INFORMATION
  | OpClear

fun perform :: "operation \<Rightarrow> ProcessMap \<Rightarrow> ProcessMap option" where
  "perform (OpRegister process handler alloc) pm =
     map_option snd (RegisterProcessHandler pm process handler alloc)"
| "perform (OpSwitch process newHandler alloc) pm =
     map_option snd (SwitchProcessHandler pm process newHandler alloc)"
| "perform (OpUnregister process uninitialized) pm =
     Some (snd (UnregisterProcess pm process uninitialized))"
| "perform OpClear pm = Some (Clear pm)"

fun run :: "operation list \<Rightarrow> ProcessMap \<Rightarrow> ProcessMap option" where
  "run [] pm = Some pm"
| "run (x # xs) pm = (case perform x pm of None \<Rightarrow> None | Some pm' \<Rightarrow> run xs pm')"

text \<open>The entries stored under a key, however the table is searched.\<close>

definition entries :: "ProcessMap \<Rightarrow> PEPROCESS \<Rightarrow> NODE list" where
  "entries pm P = filter (\<lambda>n. Key n = P) (m_table pm)"

text \<open>Three small registries for the concrete instances below.\<close>

definition sample_registered :: ProcessMap where
  "sample_registered =
     \<lparr>m_table = [\<lparr>Key = 7, Value = \<lparr>Handler = 1, HasParentHandler = False,
                    HasInternalParentHandler = False, ParentHandler = 0\<rparr>\<rparr>],
      m_mutex = FastMutexFree\<rparr>"

definition sample_delegated :: ProcessMap where
  "sample_delegated =
     \<lparr>m_table = [\<lparr>Key = 7, Value = \<lparr>Handler = 2, HasParentHandler = True,
                    HasInternalParentHandler = True, ParentHandler = 1\<rparr>\<rparr>],
      m_mutex = FastMutexFree\<rparr>"

definition sample_empty :: ProcessMap where
  "sample_empty = \<lparr>m_table = [], m_mutex = FastMutexFree\<rparr>"

text \<open>The order the table primitive keeps: strictly ascending keys.\<close>

definition table_sorted :: "NODE list \<Rightarrow> bool" where
  "table_sorted t = sorted_wrt (\<lambda>a b. Key a < Key b) t"

subsection \<open>The lock discipline\<close>

text \<open>
  The fast mutex of the host kernel, by its contract: it is not recursive, so that
  acquiring it while it is owned waits for a release, which in a single flow of control
  never comes (\<open>None\<close>); releasing leaves it free.
\<close>

definition ExAcquireFastMutex :: "FAST_MUTEX \<Rightarrow> FAST_MUTEX option" where
  "ExAcquireFastMutex m = (case m of FastMutexFree \<Rightarrow> Some FastMutexOwned | FastMutexOwned \<Rightarrow> None)"

definition ExReleaseFastMutex :: "FAST_MUTEX \<Rightarrow> FAST_MUTEX" where
  "ExReleaseFastMutex m = FastMutexFree"

text \<open>
  The discipline the specification asks of every public operation, written from its words:
  the lock is acquired first, held while the operation runs, and released on every return.
  \<open>spec_lookup\<close> to \<open>spec_unregister\<close> are the six operations under it. They are not in
  the source; the methods of the source are compared with them.
\<close>

definition spec_locked ::
  "(ProcessMap \<Rightarrow> ('r \<times> ProcessMap) option) \<Rightarrow> ProcessMap \<Rightarrow> ('r \<times> ProcessMap) option" where
  "spec_locked operation pm =
     (case ExAcquireFastMutex (m_mutex pm) of
        None \<Rightarrow> None
      | Some m \<Rightarrow>
          (case operation (pm\<lparr>m_mutex := m\<rparr>) of
             None \<Rightarrow> None
           | Some (r, pm') \<Rightarrow> Some (r, pm'\<lparr>m_mutex := ExReleaseFastMutex (m_mutex pm')\<rparr>)))"

definition spec_lookup :: "ProcessMap \<Rightarrow> PEPROCESS \<Rightarrow> (nat option \<times> ProcessMap) option" where
  "spec_lookup pm key = spec_locked (\<lambda>pm. Some (ProcessMap_subscript pm key, pm)) pm"

definition spec_registerHandler ::
  "ProcessMap \<Rightarrow> PEPROCESS \<Rightarrow> DWORD \<Rightarrow> bool \<Rightarrow> (NTSTATUS \<times> ProcessMap) option" where
  "spec_registerHandler pm process handler alloc =
     spec_locked (\<lambda>pm. RegisterProcessHandler pm process handler alloc) pm"

definition spec_getHandler ::
  "ProcessMap \<Rightarrow> PEPROCESS \<Rightarrow> DWORD option \<Rightarrow> ((NTSTATUS \<times> DWORD option) \<times> ProcessMap) option" where
  "spec_getHandler pm process handler =
     spec_locked (\<lambda>pm. Some (GetProcessHandler pm process handler, pm)) pm"

definition spec_belongsToHandler ::
  "ProcessMap \<Rightarrow> PEPROCESS \<Rightarrow> DWORD \<Rightarrow> (bool \<times> ProcessMap) option" where
  "spec_belongsToHandler pm process handler =
     spec_locked (\<lambda>pm. Some (ProcessBelongsToHandler pm process handler, pm)) pm"

definition spec_switchHandler ::
  "ProcessMap \<Rightarrow> PEPROCESS \<Rightarrow> DWORD \<Rightarrow> bool \<Rightarrow> (NTSTATUS \<times> ProcessMap) option" where
  "spec_switchHandler pm process newHandler alloc =
     spec_locked (\<lambda>pm. SwitchProcessHandler pm process newHandler alloc) pm"

definition spec_unregister ::
  "ProcessMap \<Rightarrow> PEPROCESS \<Rightarrow> PROCESS_HANDLER_INFORMATION \<Rightarrow> (NTSTATUS \<times> ProcessMap) option" where
  "spec_unregister pm process uninitialized =
     spec_locked (\<lambda>pm. Some (UnregisterProcess pm process uninitialized)) pm"

text \<open>The result of a call with the mutex of the returned object replaced.\<close>

definition set_mutex :: "FAST_MUTEX \<Rightarrow> 'r \<times> ProcessMap \<Rightarrow> 'r \<times> ProcessMap" where
  "set_mutex m r = (fst r, (snd r)\<lparr>m_mutex := m\<rparr>)"

section \<open>The loader (\<^verbatim>\<open>mxss/monix/src/loader.cpp\<close>)\<close>

text \<open>
  \<^verbatim>\<open>LinuxSyscall\<close> is the raw trap: the registers are loaded and the trap instruction is
  executed, nothing else. A run of the loader is the sequence of the calls it makes, each
  with its number and its arguments in order. The numbers \<^verbatim>\<open>SYS_*\<close> differ between the
  architectures and stay symbolic; \<^verbatim>\<open>SYSCALL_*\<close> are the Monix numbers the source
  defines. An argument is an integer or a pointer, given by the bytes it points to.
\<close>

datatype sysno =
    SYS_write | SYS_exit | SYS_mknod | SYS_open | SYS_chroot | SYS_chdir | SYS_ioctl
  | SYSCALL_EXIT | SYSCALL_READ | SYSCALL_WRITE

datatype arg = Val int | Ptr "char list"

datatype syscall = Syscall sysno "arg list"

text \<open>
  A C \<^verbatim>\<open>int\<close> is an integer between \<open>- 2 ^ 31\<close> and \<open>2 ^ 31 - 1\<close>; \<open>int_wrap\<close> is the
  two's complement result of an operation that leaves this range, which only the negation
  of the least \<^verbatim>\<open>int\<close> does here.
\<close>

definition int_wrap :: "int \<Rightarrow> int" where
  "int_wrap k = (k + 2 ^ 31) mod 2 ^ 32 - 2 ^ 31"

text \<open>
  The \<^verbatim>\<open>do ... while (status != 0)\<close> loop of \<^verbatim>\<open>LinuxFail\<close>. \<^verbatim>\<open>%\<close> and \<^verbatim>\<open>/\<close> truncate
  towards zero (\<open>smod\<close>, \<open>sdiv\<close>), \<open>48\<close> is \<^verbatim>\<open>'0'\<close>, and the sum is cut to a
  \<^verbatim>\<open>char\<close> when it is stored.
\<close>

function LinuxFail_loop :: "char list \<Rightarrow> nat \<Rightarrow> int \<Rightarrow> char list \<times> nat \<times> int" where
  "LinuxFail_loop statusString len status =
     (let statusString' = statusString[len := char_of (status smod 10 + 48)];
          status' = status sdiv 10;
          len' = len + 1
      in if status' \<noteq> 0 then LinuxFail_loop statusString' len' status'
         else (statusString', len', status'))"
  by pat_completeness auto
termination
proof (relation "measure (\<lambda>(statusString, len, status). nat \<bar>status\<bar>)")
  show "wf (measure (\<lambda>(statusString, len, status). nat \<bar>status\<bar>))" by simp
next
  fix statusString :: "char list" and len :: nat and status :: int
    and x :: "char list" and xa :: int and xb :: nat
  assume "xa = status sdiv 10" and "xa \<noteq> 0"
  then have "\<bar>status sdiv 10\<bar> < \<bar>status\<bar>"
    by (auto simp: signed_divide_int_def abs_mult sgn_if split: if_splits)
  then show "((x, xb, xa), statusString, len, status)
      \<in> measure (\<lambda>(statusString, len, status). nat \<bar>status\<bar>)"
    using \<open>xa = status sdiv 10\<close> by simp
qed

text \<open>
  \<^verbatim>\<open>statusString\<close> has 32 bytes, the first two \<^verbatim>\<open>": "\<close> and the others zero. The function
  does not return; its result is the calls it makes.
\<close>

definition LinuxFail :: "char list \<Rightarrow> nat \<Rightarrow> int \<Rightarrow> syscall list" where
  "LinuxFail message messageSize status =
     (let statusString = '': '' @ replicate 30 (CHR 0x00);
          len = 2;
          status = int_wrap (- status)
      in case LinuxFail_loop statusString len status of
           (statusString, len, status) \<Rightarrow>
             (let statusString = statusString[len := CHR 0x0A];
                  len = len + 1
              in [Syscall SYS_write [Val 2, Ptr message, Val (int messageSize)],
                  Syscall SYS_write [Val 2, Ptr statusString, Val (int len)],
                  Syscall SYS_exit [Val status]]))"









text \<open>The bytes a write call hands to the kernel.\<close>

fun written :: "syscall \<Rightarrow> char list" where
  "written (Syscall SYS_write [Val fd, Ptr buf, Val n]) = take (nat n) buf"
| "written call = []"

text \<open>
  The decimal rendering the specification speaks of, most significant digit first. It is
  written from the specification's words, to compare \<^verbatim>\<open>LinuxFail\<close> with.
\<close>

fun spec_decimal :: "nat \<Rightarrow> string" where
  "spec_decimal n =
     (if n < 10 then [char_of (48 + n)]
      else spec_decimal (n div 10) @ [char_of (48 + n mod 10)])"




section \<open>Properties of the table primitive\<close>

declare Clear_loop.simps [simp del]

lemma CompareRoutine_EqualD:
  "CompareRoutine a b = GenericEqual \<Longrightarrow> Key a = Key b"
  by (simp add: CompareRoutine_def split: if_splits)

lemma CompareRoutine_LessD:
  "CompareRoutine a b = GenericLessThan \<Longrightarrow> Key a < Key b"
  by (auto simp: CompareRoutine_def split: if_splits)

lemma CompareRoutine_GreaterD:
  "CompareRoutine a b = GenericGreaterThan \<Longrightarrow> Key b < Key a"
  by (simp add: CompareRoutine_def split: if_splits)

lemma CompareRoutine_same [simp]:
  "Key a = Key b \<Longrightarrow> CompareRoutine a b = GenericEqual"
  by (simp add: CompareRoutine_def)

lemma CompareRoutine_key:
  "Key b = Key b' \<Longrightarrow> Key n = Key n' \<Longrightarrow> CompareRoutine b n = CompareRoutine b' n'"
  by (simp add: CompareRoutine_def)

lemma Lookup_Some:
  "RtlLookupElementGenericTableAvl t b = Some i \<Longrightarrow> i < length t \<and> Key (t ! i) = Key b"
proof (induction t arbitrary: i)
  case Nil
  then show ?case by simp
next
  case (Cons n ns)
  show ?case
  proof (cases "CompareRoutine b n")
    case GenericLessThan
    with Cons.prems show ?thesis by simp
  next
    case GenericGreaterThan
    with Cons.prems obtain j where "RtlLookupElementGenericTableAvl ns b = Some j" "i = Suc j"
      by auto
    with Cons.IH show ?thesis by simp
  next
    case GenericEqual
    with Cons.prems CompareRoutine_EqualD [OF GenericEqual] show ?thesis by auto
  qed
qed

lemma Lookup_cong:
  "map Key t = map Key t' \<Longrightarrow> Key b = Key b' \<Longrightarrow>
   RtlLookupElementGenericTableAvl t b = RtlLookupElementGenericTableAvl t' b'"
proof (induction t arbitrary: t')
  case Nil
  then show ?case by simp
next
  case (Cons n ns)
  then obtain n' ns' where t': "t' = n' # ns'" "Key n = Key n'" "map Key ns = map Key ns'"
    by (cases t') auto
  from t' Cons.prems have c: "CompareRoutine b n = CompareRoutine b' n'"
    by (intro CompareRoutine_key) simp_all
  have ih: "RtlLookupElementGenericTableAvl ns b = RtlLookupElementGenericTableAvl ns' b'"
    using Cons.IH [of ns'] t' Cons.prems by simp
  show ?case
    unfolding t' RtlLookupElementGenericTableAvl.simps c ih ..
qed

lemma Insert_present:
  "RtlLookupElementGenericTableAvl t b = Some i \<Longrightarrow>
   RtlInsertElementGenericTableAvl t b alloc = (Some i, False, t)"
  by (induction t arbitrary: i) (auto split: RTL_GENERIC_COMPARE_RESULTS.splits)

lemma Insert_absent_nomem:
  "RtlLookupElementGenericTableAvl t b = None \<Longrightarrow>
   RtlInsertElementGenericTableAvl t b False = (None, False, t)"
  by (induction t) (auto split: RTL_GENERIC_COMPARE_RESULTS.splits)

lemma Delete_cong:
  "Key b = Key b' \<Longrightarrow>
   RtlDeleteElementGenericTableAvl t b = RtlDeleteElementGenericTableAvl t b'"
proof (induction t)
  case Nil
  then show ?case by simp
next
  case (Cons n ns)
  then have "CompareRoutine b n = CompareRoutine b' n"
    by (intro CompareRoutine_key) simp_all
  with Cons show ?case by (simp split: RTL_GENERIC_COMPARE_RESULTS.splits)
qed

lemma Insert_absent:
  "RtlLookupElementGenericTableAvl t b = None \<Longrightarrow>
   \<exists>i t'. RtlInsertElementGenericTableAvl t b True = (Some i, True, t') \<and>
          RtlLookupElementGenericTableAvl t' b = Some i \<and> t' ! i = b \<and>
          RtlDeleteElementGenericTableAvl t' b = (True, t)"
proof (induction t)
  case Nil
  then show ?case by simp
next
  case (Cons n ns)
  show ?case
  proof (cases "CompareRoutine b n")
    case GenericLessThan
    then show ?thesis by simp
  next
    case GenericGreaterThan
    with Cons.prems have "RtlLookupElementGenericTableAvl ns b = None"
      by simp
    from Cons.IH [OF this] obtain i t' where
      "RtlInsertElementGenericTableAvl ns b True = (Some i, True, t')"
      "RtlLookupElementGenericTableAvl t' b = Some i" "t' ! i = b"
      "RtlDeleteElementGenericTableAvl t' b = (True, ns)"
      by blast
    with GenericGreaterThan show ?thesis by simp
  next
    case GenericEqual
    with Cons.prems show ?thesis by simp
  qed
qed

lemma Delete_absent:
  "RtlLookupElementGenericTableAvl t b = None \<Longrightarrow>
   RtlDeleteElementGenericTableAvl t b = (False, t)"
  by (induction t) (auto split: RTL_GENERIC_COMPARE_RESULTS.splits)

lemma Delete_present:
  "RtlLookupElementGenericTableAvl t b = Some i \<Longrightarrow>
   fst (RtlDeleteElementGenericTableAvl t b)"
  by (induction t arbitrary: i) (auto split: RTL_GENERIC_COMPARE_RESULTS.splits prod.splits)

lemma Insert_keys:
  "Key ` set (snd (snd (RtlInsertElementGenericTableAvl t b alloc))) \<subseteq> insert (Key b) (Key ` set t)"
proof (induction t)
  case Nil
  then show ?case by simp
next
  case (Cons n ns)
  obtain p new ns' where r: "RtlInsertElementGenericTableAvl ns b alloc = (p, new, ns')"
    by (cases "RtlInsertElementGenericTableAvl ns b alloc") auto
  with Cons have "Key ` set ns' \<subseteq> insert (Key b) (Key ` set ns)"
    by simp
  with r show ?case
    by (cases "CompareRoutine b n") auto
qed

lemma Insert_sorted:
  "table_sorted t \<Longrightarrow> table_sorted (snd (snd (RtlInsertElementGenericTableAvl t b alloc)))"
proof (induction t)
  case Nil
  then show ?case by (simp add: table_sorted_def)
next
  case (Cons n ns)
  show ?case
  proof (cases "CompareRoutine b n")
    case GenericLessThan
    with Cons.prems CompareRoutine_LessD [OF GenericLessThan] show ?thesis
      by (auto simp: table_sorted_def)
  next
    case GenericGreaterThan
    obtain p new ns' where r: "RtlInsertElementGenericTableAvl ns b alloc = (p, new, ns')"
      by (cases "RtlInsertElementGenericTableAvl ns b alloc") auto
    from Cons have "table_sorted ns'"
      using r by (simp add: table_sorted_def)
    moreover have "Key ` set ns' \<subseteq> insert (Key b) (Key ` set ns)"
      using Insert_keys [of ns b alloc] r by simp
    ultimately show ?thesis
      using Cons.prems GenericGreaterThan CompareRoutine_GreaterD [OF GenericGreaterThan] r
      by (auto simp: table_sorted_def)
  next
    case GenericEqual
    with Cons.prems show ?thesis by simp
  qed
qed

lemma Delete_set:
  "set (snd (RtlDeleteElementGenericTableAvl t b)) \<subseteq> set t"
  by (induction t) (auto split: RTL_GENERIC_COMPARE_RESULTS.splits prod.splits)

lemma Delete_sorted:
  "table_sorted t \<Longrightarrow> table_sorted (snd (RtlDeleteElementGenericTableAvl t b))"
proof (induction t)
  case Nil
  then show ?case by simp
next
  case (Cons n ns)
  show ?case
  proof (cases "CompareRoutine b n")
    case GenericLessThan
    with Cons.prems show ?thesis by simp
  next
    case GenericGreaterThan
    obtain r ns' where r: "RtlDeleteElementGenericTableAvl ns b = (r, ns')"
      by (cases "RtlDeleteElementGenericTableAvl ns b") auto
    from Cons have "table_sorted ns'"
      using r by (simp add: table_sorted_def)
    moreover have "set ns' \<subseteq> set ns"
      using Delete_set [of ns b] r by simp
    ultimately show ?thesis
      using Cons.prems GenericGreaterThan r by (auto simp: table_sorted_def)
  next
    case GenericEqual
    with Cons.prems show ?thesis by (simp add: table_sorted_def)
  qed
qed

lemma Lookup_sorted_less:
  "table_sorted (n # ns) \<Longrightarrow> Key b \<le> Key n \<Longrightarrow> RtlLookupElementGenericTableAvl ns b = None"
  by (cases ns)
    (auto simp: table_sorted_def split: RTL_GENERIC_COMPARE_RESULTS.splits
          dest: CompareRoutine_EqualD CompareRoutine_GreaterD)

lemma Delete_then_Lookup:
  "table_sorted t \<Longrightarrow>
   RtlLookupElementGenericTableAvl (snd (RtlDeleteElementGenericTableAvl t b)) b = None"
proof (induction t)
  case Nil
  then show ?case by simp
next
  case (Cons n ns)
  show ?case
  proof (cases "CompareRoutine b n")
    case GenericLessThan
    then show ?thesis by simp
  next
    case GenericGreaterThan
    obtain r ns' where r: "RtlDeleteElementGenericTableAvl ns b = (r, ns')"
      by (cases "RtlDeleteElementGenericTableAvl ns b") auto
    with Cons have "RtlLookupElementGenericTableAvl ns' b = None"
      by (simp add: table_sorted_def)
    with GenericGreaterThan r show ?thesis by simp
  next
    case GenericEqual
    with Cons.prems Lookup_sorted_less [of n ns b] CompareRoutine_EqualD [OF GenericEqual]
    show ?thesis by simp
  qed
qed

lemma sorted_unique:
  "table_sorted t \<Longrightarrow> length (filter (\<lambda>n. Key n = P) t) \<le> 1"
proof (induction t)
  case Nil
  then show ?case by simp
next
  case (Cons n ns)
  then have IH: "length (filter (\<lambda>n. Key n = P) ns) \<le> 1"
    by (simp add: table_sorted_def)
  show ?case
  proof (cases "Key n = P")
    case True
    with Cons.prems have "\<forall>m \<in> set ns. Key m \<noteq> P"
      by (auto simp: table_sorted_def)
    then have "filter (\<lambda>n. Key n = P) ns = []"
      by (simp add: filter_empty_conv)
    with True show ?thesis by simp
  next
    case False
    with IH show ?thesis by simp
  qed
qed

lemma Clear_loop_Nil: "Clear_loop [] = []"
  by (subst Clear_loop.simps) (simp add: RtlEnumerateGenericTableAvl_restart_def)

lemma Clear_loop_Cons: "Clear_loop (n # ns) = Clear_loop ns"
  by (subst Clear_loop.simps) (simp add: RtlEnumerateGenericTableAvl_restart_def)

lemma Clear_loop_empty: "Clear_loop t = []"
  by (induction t) (simp_all add: Clear_loop_Nil Clear_loop_Cons)

subsection \<open>Statuses\<close>

lemma NT_SUCCESS_SUCCESS: "NT_SUCCESS STATUS_SUCCESS"
  by (simp add: NT_SUCCESS_def STATUS_SUCCESS_def)

lemma NT_SUCCESS_INSUFFICIENT_RESOURCES: "\<not> NT_SUCCESS STATUS_INSUFFICIENT_RESOURCES"
  by (simp add: NT_SUCCESS_def STATUS_INSUFFICIENT_RESOURCES_def)

lemma NT_SUCCESS_ALREADY_REGISTERED: "\<not> NT_SUCCESS STATUS_ALREADY_REGISTERED"
  by (simp add: NT_SUCCESS_def STATUS_ALREADY_REGISTERED_def)

lemma status_distinct:
  "STATUS_SUCCESS \<noteq> STATUS_NOT_FOUND" "STATUS_NOT_FOUND \<noteq> STATUS_SUCCESS"
  "STATUS_SUCCESS \<noteq> STATUS_NOT_IMPLEMENTED" "STATUS_NOT_IMPLEMENTED \<noteq> STATUS_SUCCESS"
  "STATUS_SUCCESS \<noteq> STATUS_ALREADY_REGISTERED" "STATUS_ALREADY_REGISTERED \<noteq> STATUS_SUCCESS"
  "STATUS_SUCCESS \<noteq> STATUS_INSUFFICIENT_RESOURCES"
  "STATUS_INSUFFICIENT_RESOURCES \<noteq> STATUS_SUCCESS"
  by (simp_all add: STATUS_SUCCESS_def STATUS_NOT_FOUND_def STATUS_NOT_IMPLEMENTED_def
        STATUS_ALREADY_REGISTERED_def STATUS_INSUFFICIENT_RESOURCES_def)

subsection \<open>Pointers into the table\<close>

lemma subscript_Some:
  "ProcessMap_subscript pm P = Some i \<Longrightarrow> i < length (m_table pm) \<and> Key (m_table pm ! i) = P"
  using Lookup_Some [of "m_table pm" "\<lparr>Key = P, Value = zero_information\<rparr>" i]
  by (simp add: ProcessMap_subscript_def)

lemma update_keys:
  "map Key (t[i := (t ! i)\<lparr>Value := v\<rparr>]) = map Key t"
proof (cases "i < length t")
  case True
  then show ?thesis by (simp add: map_update list_update_same_conv)
next
  case False
  then have "length t \<le> i" by simp
  then show ?thesis by (simp only: list_update_beyond)
qed

lemma store_keys:
  "map Key (m_table (store pm i v)) = map Key (m_table pm)"
  by (simp add: store_def update_keys)

lemma subscript_store:
  "ProcessMap_subscript (store pm i v) P = ProcessMap_subscript pm P"
  using Lookup_cong [OF store_keys, of _ _ pm i v]
  by (simp add: ProcessMap_subscript_def)

lemma deref_store:
  "i < length (m_table pm) \<Longrightarrow> deref (store pm i v) i = v"
  by (simp add: deref_def store_def)

lemma information_update:
  "(info :: PROCESS_HANDLER_INFORMATION)
     \<lparr>HasParentHandler := a, HasInternalParentHandler := b, ParentHandler := c, Handler := d\<rparr> =
   \<lparr>Handler = d, HasParentHandler = a, HasInternalParentHandler = b, ParentHandler = c\<rparr>"
  by (cases info) simp

lemma handoff_registered:
  assumes "ProcessMap_subscript pm P = Some i" and "\<not> HasParentHandler (deref pm i)"
  shows "SwitchProcessHandler pm P H2 alloc =
           Some (STATUS_SUCCESS,
             store pm i \<lparr>Handler = H2, HasParentHandler = True,
                         HasInternalParentHandler = True,
                         ParentHandler = Handler (deref pm i)\<rparr>)"
  using assms
  by (simp add: SwitchProcessHandler_def SwitchProcessHandler_handoff_def Let_def
        information_update)

lemma handoff_delegated:
  assumes "ProcessMap_subscript pm P = Some i" and "HasParentHandler (deref pm i)"
  shows "SwitchProcessHandler pm P H3 alloc = Some (STATUS_NOT_IMPLEMENTED, pm)"
  using assms by (simp add: SwitchProcessHandler_def SwitchProcessHandler_handoff_def)

lemma information_present:
  assumes "ProcessMap_subscript pm P = Some i"
  shows "GetProcessHandler_information pm P (Some out) = (STATUS_SUCCESS, Some (deref pm i))"
  using assms by (simp add: GetProcessHandler_information_def)

lemma Register_absent:
  assumes "ProcessMap_subscript pm P = None"
  shows "\<exists>i pm'. RegisterProcessHandler pm P H True = Some (STATUS_SUCCESS, pm') \<and>
           ProcessMap_subscript pm' P = Some i \<and>
           deref pm' i = zero_information\<lparr>Handler := H\<rparr> \<and>
           m_mutex pm' = m_mutex pm \<and>
           (\<forall>u. UnregisterProcess pm' P u = (STATUS_SUCCESS, pm))"
proof -
  let ?b = "\<lparr>Key = P, Value = zero_information\<lparr>Handler := H\<rparr>\<rparr>"
  from assms have "RtlLookupElementGenericTableAvl (m_table pm) ?b = None"
    using Lookup_cong [of "m_table pm" "m_table pm" ?b "\<lparr>Key = P, Value = zero_information\<rparr>"]
    by (simp add: ProcessMap_subscript_def)
  from Insert_absent [OF this] obtain i t' where
    ins: "RtlInsertElementGenericTableAvl (m_table pm) ?b True = (Some i, True, t')"
    and look: "RtlLookupElementGenericTableAvl t' ?b = Some i"
    and at: "t' ! i = ?b"
    and del: "RtlDeleteElementGenericTableAvl t' ?b = (True, m_table pm)"
    by blast
  let ?pm' = "pm\<lparr>m_table := t'\<rparr>"
  have 1: "RegisterProcessHandler pm P H True = Some (STATUS_SUCCESS, ?pm')"
    using ins at by (simp add: RegisterProcessHandler_def)
  have 2: "ProcessMap_subscript ?pm' P = Some i"
    using look Lookup_cong [of t' t' ?b "\<lparr>Key = P, Value = zero_information\<rparr>"]
    by (simp add: ProcessMap_subscript_def)
  have 3: "deref ?pm' i = zero_information\<lparr>Handler := H\<rparr>"
    using at by (simp add: deref_def)
  have 4: "UnregisterProcess ?pm' P u = (STATUS_SUCCESS, pm)" for u
    using del Delete_cong [of "\<lparr>Key = P, Value = u\<rparr>" ?b t']
    by (simp add: UnregisterProcess_def)
  from 1 2 3 4 show ?thesis by auto
qed

lemma Register_nomem:
  assumes "ProcessMap_subscript pm P = None"
  shows "RegisterProcessHandler pm P H False = Some (STATUS_INSUFFICIENT_RESOURCES, pm)"
proof -
  let ?b = "\<lparr>Key = P, Value = zero_information\<lparr>Handler := H\<rparr>\<rparr>"
  from assms have "RtlLookupElementGenericTableAvl (m_table pm) ?b = None"
    using Lookup_cong [of "m_table pm" "m_table pm" ?b "\<lparr>Key = P, Value = zero_information\<rparr>"]
    by (simp add: ProcessMap_subscript_def)
  from Insert_absent_nomem [OF this] show ?thesis
    by (simp add: RegisterProcessHandler_def)
qed

lemma Register_present:
  assumes "ProcessMap_subscript pm P = Some i"
  shows "RegisterProcessHandler pm P H alloc = Some (STATUS_ALREADY_REGISTERED, pm)"
proof -
  let ?b = "\<lparr>Key = P, Value = zero_information\<lparr>Handler := H\<rparr>\<rparr>"
  from assms have "RtlLookupElementGenericTableAvl (m_table pm) ?b = Some i"
    using Lookup_cong [of "m_table pm" "m_table pm" ?b "\<lparr>Key = P, Value = zero_information\<rparr>"]
    by (simp add: ProcessMap_subscript_def)
  from Insert_present [OF this] show ?thesis
    by (simp add: RegisterProcessHandler_def)
qed

lemma Unregister_absent:
  assumes "ProcessMap_subscript pm P = None"
  shows "UnregisterProcess pm P u = (STATUS_NOT_FOUND, pm)"
proof -
  let ?b = "\<lparr>Key = P, Value = u\<rparr>"
  from assms have "RtlLookupElementGenericTableAvl (m_table pm) ?b = None"
    using Lookup_cong [of "m_table pm" "m_table pm" ?b "\<lparr>Key = P, Value = zero_information\<rparr>"]
    by (simp add: ProcessMap_subscript_def)
  from Delete_absent [OF this] show ?thesis
    by (simp add: UnregisterProcess_def)
qed

lemma Unregister_present:
  assumes "ProcessMap_subscript pm P = Some i"
  shows "fst (UnregisterProcess pm P u) = STATUS_SUCCESS"
proof -
  let ?b = "\<lparr>Key = P, Value = u\<rparr>"
  from assms have "RtlLookupElementGenericTableAvl (m_table pm) ?b = Some i"
    using Lookup_cong [of "m_table pm" "m_table pm" ?b "\<lparr>Key = P, Value = zero_information\<rparr>"]
    by (simp add: ProcessMap_subscript_def)
  from Delete_present [OF this] show ?thesis
    by (cases "RtlDeleteElementGenericTableAvl (m_table pm) ?b") (simp add: UnregisterProcess_def)
qed

lemma Unregister_table:
  "m_table (snd (UnregisterProcess pm P u)) =
     snd (RtlDeleteElementGenericTableAvl (m_table pm) \<lparr>Key = P, Value = u\<rparr>)"
  by (simp add: UnregisterProcess_def split: prod.splits)

lemma Unregister_sorted_absent:
  assumes "table_sorted (m_table pm)"
  shows "ProcessMap_subscript (snd (UnregisterProcess pm P u)) P = None"
proof -
  let ?b = "\<lparr>Key = P, Value = u\<rparr>"
  let ?t = "snd (RtlDeleteElementGenericTableAvl (m_table pm) ?b)"
  have "RtlLookupElementGenericTableAvl ?t ?b = None"
    using assms by (rule Delete_then_Lookup)
  then show ?thesis
    using Lookup_cong [of ?t ?t ?b "\<lparr>Key = P, Value = zero_information\<rparr>"]
    by (simp add: ProcessMap_subscript_def Unregister_table)
qed

subsection \<open>Every call returns\<close>

lemma Register_cases:
  "RegisterProcessHandler pm P H alloc =
     (case ProcessMap_subscript pm P of
        Some i \<Rightarrow> Some (STATUS_ALREADY_REGISTERED, pm)
      | None \<Rightarrow>
          if alloc then Some (STATUS_SUCCESS,
            pm\<lparr>m_table := snd (snd (RtlInsertElementGenericTableAvl (m_table pm)
                   \<lparr>Key = P, Value = zero_information\<lparr>Handler := H\<rparr>\<rparr> True))\<rparr>)
          else Some (STATUS_INSUFFICIENT_RESOURCES, pm))"
proof (cases "ProcessMap_subscript pm P")
  case None
  show ?thesis
  proof (cases alloc)
    case True
    from Register_absent [OF None, of H] obtain pm' where
      r: "RegisterProcessHandler pm P H True = Some (STATUS_SUCCESS, pm')"
      by blast
    then have "pm' = pm\<lparr>m_table := snd (snd (RtlInsertElementGenericTableAvl (m_table pm)
                   \<lparr>Key = P, Value = zero_information\<lparr>Handler := H\<rparr>\<rparr> True))\<rparr>"
      by (auto simp: RegisterProcessHandler_def Let_def split: prod.splits option.splits if_splits)
    with r None True show ?thesis by simp
  next
    case False
    with None Register_nomem [OF None, of H] show ?thesis by simp
  qed
next
  case (Some i)
  with Register_present [OF Some, of H alloc] show ?thesis by simp
qed

lemma Switch_absent:
  assumes "ProcessMap_subscript pm P = None"
  shows "\<exists>i pm'. RegisterProcessHandler pm P (- 1) True = Some (STATUS_SUCCESS, pm') \<and>
           ProcessMap_subscript pm' P = Some i \<and>
           SwitchProcessHandler pm P H2 True =
             Some (STATUS_SUCCESS,
               store pm' i \<lparr>Handler = H2, HasParentHandler = True,
                             HasInternalParentHandler = False, ParentHandler = - 1\<rparr>)"
proof -
  from Register_absent [OF assms, of "- 1"] obtain i pm' where
    r: "RegisterProcessHandler pm P (- 1) True = Some (STATUS_SUCCESS, pm')"
    and l: "ProcessMap_subscript pm' P = Some i"
    and d: "deref pm' i = zero_information\<lparr>Handler := - 1\<rparr>"
    by blast
  have "SwitchProcessHandler pm P H2 True =
          Some (STATUS_SUCCESS,
            store pm' i \<lparr>Handler = H2, HasParentHandler = True,
                          HasInternalParentHandler = False, ParentHandler = - 1\<rparr>)"
    using assms r l d
    by (simp add: SwitchProcessHandler_def SwitchProcessHandler_handoff_def Let_def
          NT_SUCCESS_SUCCESS information_update zero_information_def)
  with r l show ?thesis by blast
qed

lemma Switch_nomem:
  assumes "ProcessMap_subscript pm P = None"
  shows "SwitchProcessHandler pm P H2 False = Some (STATUS_INSUFFICIENT_RESOURCES, pm)"
  using assms Register_nomem [OF assms, of "- 1"]
  by (simp add: SwitchProcessHandler_def NT_SUCCESS_INSUFFICIENT_RESOURCES)

subsection \<open>The order of the table is kept\<close>

lemma table_sorted_keys:
  "map Key t = map Key t' \<Longrightarrow> table_sorted t = table_sorted t'"
proof -
  have "table_sorted t = sorted_wrt (<) (map Key t)" for t
    by (simp add: table_sorted_def sorted_wrt_map)
  then show "map Key t = map Key t' \<Longrightarrow> table_sorted t = table_sorted t'"
    by simp
qed

lemma store_sorted:
  "table_sorted (m_table (store pm i v)) = table_sorted (m_table pm)"
  by (rule table_sorted_keys) (rule store_keys)

lemma Register_sorted:
  assumes "table_sorted (m_table pm)" and "RegisterProcessHandler pm P H alloc = Some (st, pm')"
  shows "table_sorted (m_table pm')"
  using assms Insert_sorted [of "m_table pm" "\<lparr>Key = P, Value = zero_information\<lparr>Handler := H\<rparr>\<rparr>" True]
  by (auto simp: Register_cases split: option.splits if_splits)

lemma Switch_sorted:
  assumes "table_sorted (m_table pm)" and "SwitchProcessHandler pm P H alloc = Some (st, pm')"
  shows "table_sorted (m_table pm')"
proof (cases "ProcessMap_subscript pm P")
  case None
  show ?thesis
  proof (cases alloc)
    case True
    from Switch_absent [OF None, of H] obtain i pm1 where
      r: "RegisterProcessHandler pm P (- 1) True = Some (STATUS_SUCCESS, pm1)"
      and s: "SwitchProcessHandler pm P H True =
             Some (STATUS_SUCCESS,
               store pm1 i \<lparr>Handler = H, HasParentHandler = True,
                             HasInternalParentHandler = False, ParentHandler = - 1\<rparr>)"
      by blast
    from Register_sorted [OF assms(1) r] have "table_sorted (m_table pm1)" .
    with s assms(2) True show ?thesis by (auto simp: store_sorted)
  next
    case False
    with Switch_nomem [OF None, of H] assms show ?thesis by simp
  qed
next
  case (Some i)
  show ?thesis
  proof (cases "HasParentHandler (deref pm i)")
    case True
    with handoff_delegated [OF Some True, of H alloc] assms show ?thesis by simp
  next
    case False
    with handoff_registered [OF Some False, of H alloc] assms show ?thesis
      by (auto simp: store_sorted)
  qed
qed

lemma Switch_returns: "SwitchProcessHandler pm P H alloc \<noteq> None"
proof (cases "ProcessMap_subscript pm P")
  case None
  show ?thesis
  proof (cases alloc)
    case True
    with Switch_absent [OF None, of H] show ?thesis by auto
  next
    case False
    with Switch_nomem [OF None, of H] show ?thesis by simp
  qed
next
  case (Some i)
  show ?thesis
  proof (cases "HasParentHandler (deref pm i)")
    case True
    with handoff_delegated [OF Some True, of H alloc] show ?thesis by simp
  next
    case False
    with handoff_registered [OF Some False, of H alloc] show ?thesis by simp
  qed
qed

lemma Register_returns: "RegisterProcessHandler pm P H alloc \<noteq> None"
  by (simp add: Register_cases split: option.splits)

lemma Unregister_sorted:
  "table_sorted (m_table pm) \<Longrightarrow> table_sorted (m_table (snd (UnregisterProcess pm P u)))"
  by (simp add: Unregister_table Delete_sorted)

lemma Clear_table: "m_table (Clear pm) = []"
  by (simp add: Clear_def Clear_loop_empty)

lemma perform_sorted:
  assumes "table_sorted (m_table pm)"
  shows "\<exists>pm'. perform x pm = Some pm' \<and> table_sorted (m_table pm')"
proof (cases x)
  case (OpRegister P H a)
  with Register_returns [of pm P H a] obtain st pm' where
    r: "RegisterProcessHandler pm P H a = Some (st, pm')" by auto
  from Register_sorted [OF assms r] r OpRegister show ?thesis by simp
next
  case (OpSwitch P H a)
  with Switch_returns [of pm P H a] obtain st pm' where
    r: "SwitchProcessHandler pm P H a = Some (st, pm')" by auto
  from Switch_sorted [OF assms r] r OpSwitch show ?thesis by simp
next
  case (OpUnregister P u)
  with Unregister_sorted [OF assms] show ?thesis by simp
next
  case OpClear
  then show ?thesis by (simp add: Clear_table table_sorted_def)
qed

lemma run_sorted:
  "table_sorted (m_table pm) \<Longrightarrow> \<exists>pm'. run ops pm = Some pm' \<and> table_sorted (m_table pm')"
proof (induction ops arbitrary: pm)
  case Nil
  then show ?case by simp
next
  case (Cons x xs)
  from perform_sorted [OF Cons.prems, of x] obtain pm1 where
    p: "perform x pm = Some pm1" and s: "table_sorted (m_table pm1)" by blast
  from Cons.IH [OF s] p show ?case by simp
qed

lemma Initialize_sorted: "table_sorted (m_table (Initialize pm0))"
  by (simp add: Initialize_def RtlInitializeGenericTableAvl_def table_sorted_def)

subsection \<open>The mutex\<close>

text \<open>
  \<^verbatim>\<open>Initialize\<close> leaves the mutex free. No other method of \<^verbatim>\<open>ProcessMap.cpp\<close> acquires,
  releases or reads it: each leaves it as it finds it, on every return.
\<close>

lemma Initialize_mutex: "m_mutex (Initialize pm) = FastMutexFree"
  by (simp add: Initialize_def ExInitializeFastMutex_def)

lemma Clear_mutex: "m_mutex (Clear pm) = m_mutex pm"
  by (simp add: Clear_def)

lemma store_mutex: "m_mutex (store pm i v) = m_mutex pm"
  by (simp add: store_def)

lemma Unregister_mutex: "m_mutex (snd (UnregisterProcess pm P u)) = m_mutex pm"
  by (simp add: UnregisterProcess_def split: prod.splits)

lemma Register_mutex:
  "RegisterProcessHandler pm P H alloc = Some (st, pm') \<Longrightarrow> m_mutex pm' = m_mutex pm"
  by (auto simp: Register_cases split: option.splits if_splits)

lemma Switch_mutex:
  assumes "SwitchProcessHandler pm P H alloc = Some (st, pm')"
  shows "m_mutex pm' = m_mutex pm"
proof (cases "ProcessMap_subscript pm P")
  case None
  show ?thesis
  proof (cases alloc)
    case True
    from Switch_absent [OF None, of H] obtain i pm1 where
      r: "RegisterProcessHandler pm P (- 1) True = Some (STATUS_SUCCESS, pm1)"
      and s: "SwitchProcessHandler pm P H True =
             Some (STATUS_SUCCESS,
               store pm1 i \<lparr>Handler = H, HasParentHandler = True,
                             HasInternalParentHandler = False, ParentHandler = - 1\<rparr>)"
      by blast
    from Register_mutex [OF r] s assms True show ?thesis
      by (auto simp: store_mutex)
  next
    case False
    with Switch_nomem [OF None, of H] assms show ?thesis by simp
  qed
next
  case (Some i)
  show ?thesis
  proof (cases "HasParentHandler (deref pm i)")
    case True
    with handoff_delegated [OF Some True, of H alloc] assms show ?thesis by simp
  next
    case False
    with handoff_registered [OF Some False, of H alloc] assms show ?thesis
      by (auto simp: store_mutex)
  qed
qed

text \<open>Nor does any of them depend on it: the mutex can be in either state.\<close>

lemma subscript_any_mutex:
  "ProcessMap_subscript (pm\<lparr>m_mutex := m\<rparr>) P = ProcessMap_subscript pm P"
  by (simp add: ProcessMap_subscript_def)

lemma deref_any_mutex: "deref (pm\<lparr>m_mutex := m\<rparr>) i = deref pm i"
  by (simp add: deref_def)

lemma store_any_mutex: "store (pm\<lparr>m_mutex := m\<rparr>) i v = (store pm i v)\<lparr>m_mutex := m\<rparr>"
  by (simp add: store_def)

lemma Register_any_mutex:
  "RegisterProcessHandler (pm\<lparr>m_mutex := m\<rparr>) P H alloc =
     map_option (set_mutex m) (RegisterProcessHandler pm P H alloc)"
  by (simp add: RegisterProcessHandler_def set_mutex_def Let_def
      split: prod.splits option.splits)

lemma handoff_any_mutex:
  "SwitchProcessHandler_handoff (pm\<lparr>m_mutex := m\<rparr>) i b H =
     map_option (set_mutex m) (SwitchProcessHandler_handoff pm i b H)"
  by (simp add: SwitchProcessHandler_handoff_def set_mutex_def Let_def deref_any_mutex
        store_any_mutex)

lemma Switch_any_mutex:
  "SwitchProcessHandler (pm\<lparr>m_mutex := m\<rparr>) P H alloc =
     map_option (set_mutex m) (SwitchProcessHandler pm P H alloc)"
proof (cases "ProcessMap_subscript pm P")
  case (Some i)
  then show ?thesis
    by (simp add: SwitchProcessHandler_def subscript_any_mutex handoff_any_mutex)
next
  case None
  show ?thesis
  proof (cases "RegisterProcessHandler pm P (- 1) alloc")
    case N: None
    with None show ?thesis
      by (simp add: SwitchProcessHandler_def subscript_any_mutex Register_any_mutex)
  next
    case (Some r)
    obtain st pm1 where r: "r = (st, pm1)" by (cases r)
    with None Some show ?thesis
      by (cases "ProcessMap_subscript pm1 P")
         (simp_all add: SwitchProcessHandler_def subscript_any_mutex Register_any_mutex
            set_mutex_def handoff_any_mutex)
  qed
qed

lemma Unregister_any_mutex:
  "UnregisterProcess (pm\<lparr>m_mutex := m\<rparr>) P u = set_mutex m (UnregisterProcess pm P u)"
  by (simp add: UnregisterProcess_def set_mutex_def Let_def split: prod.splits)

subsection \<open>Presence of a key\<close>

lemma Lookup_sorted_iff:
  "table_sorted t \<Longrightarrow>
   (RtlLookupElementGenericTableAvl t b = None) = (Key b \<notin> Key ` set t)"
proof (induction t)
  case Nil
  then show ?case by simp
next
  case (Cons n ns)
  then have IH: "(RtlLookupElementGenericTableAvl ns b = None) = (Key b \<notin> Key ` set ns)"
    by (simp add: table_sorted_def)
  from Cons.prems have above: "\<forall>m \<in> set ns. Key n < Key m"
    by (simp add: table_sorted_def)
  show ?case
  proof (cases "CompareRoutine b n")
    case GenericLessThan
    from CompareRoutine_LessD [OF this] above have "Key b \<notin> Key ` set (n # ns)"
      by auto
    with GenericLessThan show ?thesis by simp
  next
    case GenericGreaterThan
    from CompareRoutine_GreaterD [OF this] have "Key b \<noteq> Key n" by auto
    with GenericGreaterThan IH show ?thesis by simp
  next
    case GenericEqual
    from CompareRoutine_EqualD [OF this] GenericEqual show ?thesis by simp
  qed
qed

lemma subscript_entries:
  assumes "table_sorted (m_table pm)"
  shows "(ProcessMap_subscript pm P = None) = (entries pm P = [])"
proof -
  have "(entries pm P = []) = (P \<notin> Key ` set (m_table pm))"
    by (auto simp: entries_def filter_empty_conv)
  with Lookup_sorted_iff [OF assms, of "\<lparr>Key = P, Value = zero_information\<rparr>"]
  show ?thesis by (simp add: ProcessMap_subscript_def)
qed

lemma Switch_success_flag:
  assumes "SwitchProcessHandler pm P H alloc = Some (STATUS_SUCCESS, pm')"
  shows "\<exists>i. ProcessMap_subscript pm' P = Some i \<and> HasParentHandler (deref pm' i)"
proof (cases "ProcessMap_subscript pm P")
  case None
  show ?thesis
  proof (cases alloc)
    case True
    from Switch_absent [OF None, of H] obtain i pm1 where
      l: "ProcessMap_subscript pm1 P = Some i"
      and s: "SwitchProcessHandler pm P H True =
             Some (STATUS_SUCCESS,
               store pm1 i \<lparr>Handler = H, HasParentHandler = True,
                             HasInternalParentHandler = False, ParentHandler = - 1\<rparr>)"
      by blast
    from subscript_Some [OF l] have "i < length (m_table pm1)" by simp
    with s l assms True show ?thesis
      by (auto simp: subscript_store deref_store)
  next
    case False
    with Switch_nomem [OF None, of H] assms show ?thesis
      by (simp add: status_distinct)
  qed
next
  case (Some i)
  from subscript_Some [OF Some] have i: "i < length (m_table pm)" by simp
  show ?thesis
  proof (cases "HasParentHandler (deref pm i)")
    case True
    with handoff_delegated [OF Some True, of H alloc] assms show ?thesis
      by (simp add: status_distinct)
  next
    case False
    with handoff_registered [OF Some False, of H alloc] assms Some i show ?thesis
      by (auto simp: subscript_store deref_store)
  qed
qed

lemma handoff_registered_information:
  assumes "ProcessMap_subscript pm P = Some i" and "\<not> HasParentHandler (deref pm i)"
  shows "\<exists>pm'. SwitchProcessHandler pm P H2 alloc = Some (STATUS_SUCCESS, pm') \<and>
           GetProcessHandler_information pm' P (Some out) =
             (STATUS_SUCCESS,
              Some \<lparr>Handler = H2, HasParentHandler = True,
                    HasInternalParentHandler = True,
                    ParentHandler = Handler (deref pm i)\<rparr>)"
proof -
  let ?v = "\<lparr>Handler = H2, HasParentHandler = True,
            HasInternalParentHandler = True, ParentHandler = Handler (deref pm i)\<rparr>"
  from subscript_Some [OF assms(1)] have "i < length (m_table pm)" by simp
  then have "deref (store pm i ?v) i = ?v"
    by (rule deref_store)
  moreover have "ProcessMap_subscript (store pm i ?v) P = Some i"
    using assms(1) by (simp add: subscript_store)
  ultimately have "GetProcessHandler_information (store pm i ?v) P (Some out) =
      (STATUS_SUCCESS, Some ?v)"
    by (simp add: information_present)
  with handoff_registered [OF assms, of H2 alloc] show ?thesis
    by simp
qed

lemma Switch_twice:
  assumes "SwitchProcessHandler pm0 P H2 alloc0 = Some (STATUS_SUCCESS, pm)"
  shows "SwitchProcessHandler pm P H3 alloc = Some (STATUS_NOT_IMPLEMENTED, pm)"
proof -
  from Switch_success_flag [OF assms] obtain i where
    "ProcessMap_subscript pm P = Some i" "HasParentHandler (deref pm i)" by blast
  then show ?thesis by (rule handoff_delegated)
qed

subsection \<open>The sample registries\<close>

lemma sample_registered_subscript:
  "ProcessMap_subscript sample_registered 7 = Some 0"
  by (simp add: sample_registered_def ProcessMap_subscript_def CompareRoutine_def)

lemma sample_registered_deref:
  "deref sample_registered 0 =
     \<lparr>Handler = 1, HasParentHandler = False, HasInternalParentHandler = False,
      ParentHandler = 0\<rparr>"
  by (simp add: sample_registered_def deref_def)

lemma sample_delegated_subscript:
  "ProcessMap_subscript sample_delegated 7 = Some 0"
  by (simp add: sample_delegated_def ProcessMap_subscript_def CompareRoutine_def)

lemma sample_delegated_deref:
  "deref sample_delegated 0 =
     \<lparr>Handler = 2, HasParentHandler = True, HasInternalParentHandler = True,
      ParentHandler = 1\<rparr>"
  by (simp add: sample_delegated_def deref_def)

lemma sample_switch:
  "SwitchProcessHandler sample_registered 7 2 alloc = Some (STATUS_SUCCESS, sample_delegated)"
  by (simp add: handoff_registered [OF sample_registered_subscript] sample_registered_deref)
     (simp add: sample_registered_def sample_delegated_def store_def)

lemma sample_empty_subscript:
  "ProcessMap_subscript sample_empty P = None"
  by (simp add: sample_empty_def ProcessMap_subscript_def)

lemma sample_register:
  "RegisterProcessHandler sample_empty 7 1 True = Some (STATUS_SUCCESS, sample_registered)"
  by (simp add: RegisterProcessHandler_def sample_empty_def sample_registered_def
        zero_information_def)

lemma sample_run:
  "run [OpRegister 7 1 True, OpSwitch 7 2 False] (Initialize sample_empty) =
     Some sample_delegated"
proof -
  have "Initialize sample_empty = sample_empty"
    by (simp add: Initialize_def sample_empty_def RtlInitializeGenericTableAvl_def
          ExInitializeFastMutex_def)
  then show ?thesis
    by (simp add: sample_register sample_switch)
qed

section \<open>The claims about the registry\<close>

text \<open>
  C1. Once the entry of a process has \<^verbatim>\<open>HasParentHandler\<close> set, which is the case after
  any successful \<^verbatim>\<open>SwitchProcessHandler\<close> for that process, a further
  \<^verbatim>\<open>SwitchProcessHandler\<close> returns \<^verbatim>\<open>STATUS_NOT_IMPLEMENTED\<close> and the whole object, hence
  all four members of the entry, is as it was before the call.
\<close>

theorem SwitchProcessHandler_delegated_NotImplemented:
  "(ProcessMap_subscript pm P = Some pInfo \<and> HasParentHandler (deref pm pInfo) \<longrightarrow>
      SwitchProcessHandler pm P H3 alloc = Some (STATUS_NOT_IMPLEMENTED, pm)) \<and>
   (SwitchProcessHandler pm0 P H2 alloc0 = Some (STATUS_SUCCESS, pm) \<longrightarrow>
      SwitchProcessHandler pm P H3 alloc = Some (STATUS_NOT_IMPLEMENTED, pm))"
  by (auto intro: handoff_delegated Switch_twice)

theorem SwitchProcessHandler_delegated_NotImplemented_witness:
  "ProcessMap_subscript sample_delegated 7 = Some 0 \<and>
   HasParentHandler (deref sample_delegated 0) \<and>
   SwitchProcessHandler sample_registered 7 2 True = Some (STATUS_SUCCESS, sample_delegated) \<and>
   SwitchProcessHandler sample_delegated 7 3 False =
     Some (STATUS_NOT_IMPLEMENTED, sample_delegated)"
proof -
  have "HasParentHandler (deref sample_delegated 0)"
    by (simp add: sample_delegated_deref)
  with SwitchProcessHandler_delegated_NotImplemented
         [of sample_delegated 7 0 3 False sample_registered 2 True]
       sample_delegated_subscript sample_switch [of True]
  show ?thesis by blast
qed

text \<open>
  C2. From an entry with \<^verbatim>\<open>HasParentHandler\<close> clear and handler \<open>H1\<close>,
  \<^verbatim>\<open>SwitchProcessHandler\<close> to \<open>H2\<close> returns \<^verbatim>\<open>STATUS_SUCCESS\<close>, and the full-entry
  overload of \<^verbatim>\<open>GetProcessHandler\<close> then delivers handler \<open>H2\<close>, the parent flag set and
  parent handler \<open>H1\<close>.
\<close>

theorem SwitchProcessHandler_registered_parent:
  assumes "ProcessMap_subscript pm P = Some pInfo"
    and "\<not> HasParentHandler (deref pm pInfo)"
    and "Handler (deref pm pInfo) = H1"
  shows "\<exists>pm'. SwitchProcessHandler pm P H2 alloc = Some (STATUS_SUCCESS, pm') \<and>
           GetProcessHandler_information pm' P (Some out) =
             (STATUS_SUCCESS,
              Some \<lparr>Handler = H2, HasParentHandler = True,
                    HasInternalParentHandler = True, ParentHandler = H1\<rparr>)"
  using handoff_registered_information [OF assms(1,2), of H2 alloc out] assms(3) by simp

theorem SwitchProcessHandler_registered_parent_witness:
  "ProcessMap_subscript sample_registered 7 = Some 0 \<and>
   \<not> HasParentHandler (deref sample_registered 0) \<and>
   Handler (deref sample_registered 0) = 1 \<and>
   (\<exists>pm'. SwitchProcessHandler sample_registered 7 2 True = Some (STATUS_SUCCESS, pm') \<and>
      GetProcessHandler_information pm' 7 (Some zero_information) =
        (STATUS_SUCCESS,
         Some \<lparr>Handler = 2, HasParentHandler = True,
               HasInternalParentHandler = True, ParentHandler = 1\<rparr>))"
proof -
  have 1: "\<not> HasParentHandler (deref sample_registered 0)"
    and 2: "Handler (deref sample_registered 0) = 1"
    by (simp_all add: sample_registered_deref)
  from SwitchProcessHandler_registered_parent [OF sample_registered_subscript 1 2] 1 2
       sample_registered_subscript
  show ?thesis by blast
qed

text \<open>
  C3. For a process without an entry, \<^verbatim>\<open>SwitchProcessHandler\<close> registers it under the
  sentinel \<^verbatim>\<open>(DWORD)-1\<close> and hands it off: when the node can be allocated the call
  succeeds and the entry is handler \<open>H2\<close>, parent flag set, internal-parent flag clear,
  parent handler the sentinel; when it cannot, the registration's
  \<^verbatim>\<open>STATUS_INSUFFICIENT_RESOURCES\<close> is what the call returns and the process still has no
  entry.
\<close>

theorem SwitchProcessHandler_unregistered:
  assumes "ProcessMap_subscript pm P = None"
  shows "(\<exists>pm'. SwitchProcessHandler pm P H2 True = Some (STATUS_SUCCESS, pm') \<and>
            GetProcessHandler_information pm' P (Some out) =
              (STATUS_SUCCESS,
               Some \<lparr>Handler = H2, HasParentHandler = True,
                     HasInternalParentHandler = False, ParentHandler = - 1\<rparr>)) \<and>
         RegisterProcessHandler pm P (- 1) False = Some (STATUS_INSUFFICIENT_RESOURCES, pm) \<and>
         SwitchProcessHandler pm P H2 False = Some (STATUS_INSUFFICIENT_RESOURCES, pm) \<and>
         GetProcessHandler_information pm P (Some out) = (STATUS_NOT_FOUND, Some out)"
proof (intro conjI)
  let ?v = "\<lparr>Handler = H2, HasParentHandler = True,
            HasInternalParentHandler = False, ParentHandler = - 1\<rparr>"
  from Switch_absent [OF assms, of H2] obtain i pm1 where
    l: "ProcessMap_subscript pm1 P = Some i"
    and s: "SwitchProcessHandler pm P H2 True = Some (STATUS_SUCCESS, store pm1 i ?v)"
    by blast
  from subscript_Some [OF l] have "i < length (m_table pm1)" by simp
  then have "deref (store pm1 i ?v) i = ?v"
    by (rule deref_store)
  moreover have "ProcessMap_subscript (store pm1 i ?v) P = Some i"
    using l by (simp add: subscript_store)
  ultimately have "GetProcessHandler_information (store pm1 i ?v) P (Some out) =
      (STATUS_SUCCESS, Some ?v)"
    by (simp add: information_present)
  with s show "\<exists>pm'. SwitchProcessHandler pm P H2 True = Some (STATUS_SUCCESS, pm') \<and>
            GetProcessHandler_information pm' P (Some out) = (STATUS_SUCCESS, Some ?v)"
    by blast
next
  show "RegisterProcessHandler pm P (- 1) False = Some (STATUS_INSUFFICIENT_RESOURCES, pm)"
    using assms by (rule Register_nomem)
next
  show "SwitchProcessHandler pm P H2 False = Some (STATUS_INSUFFICIENT_RESOURCES, pm)"
    using assms by (rule Switch_nomem)
next
  show "GetProcessHandler_information pm P (Some out) = (STATUS_NOT_FOUND, Some out)"
    using assms by (simp add: GetProcessHandler_information_def)
qed

theorem SwitchProcessHandler_unregistered_witness:
  "ProcessMap_subscript sample_empty 7 = None \<and>
   (\<exists>pm'. SwitchProcessHandler sample_empty 7 2 True = Some (STATUS_SUCCESS, pm') \<and>
      GetProcessHandler_information pm' 7 (Some zero_information) =
        (STATUS_SUCCESS,
         Some \<lparr>Handler = 2, HasParentHandler = True,
               HasInternalParentHandler = False, ParentHandler = - 1\<rparr>)) \<and>
   SwitchProcessHandler sample_empty 7 2 False =
     Some (STATUS_INSUFFICIENT_RESOURCES, sample_empty)"
  using SwitchProcessHandler_unregistered [OF sample_empty_subscript, of 7 2 zero_information]
        sample_empty_subscript [of 7]
  by blast

text \<open>
  C5, as the code has it. No public operation of the registry acquires or releases the
  lock itself. \<^verbatim>\<open>Initialize\<close> leaves the mutex free; the lookup, both overloads of
  \<^verbatim>\<open>GetProcessHandler\<close>, \<^verbatim>\<open>ProcessBelongsToHandler\<close>, \<^verbatim>\<open>RegisterProcessHandler\<close>,
  \<^verbatim>\<open>SwitchProcessHandler\<close>, \<^verbatim>\<open>UnregisterProcess\<close> and \<^verbatim>\<open>Clear\<close> return the same
  result and the same table whether the mutex is free or owned, and on every return,
  error returns included, the mutex is as the call found it.
\<close>

theorem operations_ignore_mutex:
  "m_mutex (Initialize pm) = FastMutexFree \<and>
   ProcessMap_subscript (pm\<lparr>m_mutex := m\<rparr>) P = ProcessMap_subscript pm P \<and>
   GetProcessHandler (pm\<lparr>m_mutex := m\<rparr>) P handler = GetProcessHandler pm P handler \<and>
   GetProcessHandler_information (pm\<lparr>m_mutex := m\<rparr>) P information =
     GetProcessHandler_information pm P information \<and>
   ProcessBelongsToHandler (pm\<lparr>m_mutex := m\<rparr>) P H = ProcessBelongsToHandler pm P H \<and>
   (\<exists>r. RegisterProcessHandler pm P H alloc = Some r \<and>
        RegisterProcessHandler (pm\<lparr>m_mutex := m\<rparr>) P H alloc = Some (set_mutex m r) \<and>
        m_mutex (snd r) = m_mutex pm) \<and>
   (\<exists>r. SwitchProcessHandler pm P H alloc = Some r \<and>
        SwitchProcessHandler (pm\<lparr>m_mutex := m\<rparr>) P H alloc = Some (set_mutex m r) \<and>
        m_mutex (snd r) = m_mutex pm) \<and>
   UnregisterProcess (pm\<lparr>m_mutex := m\<rparr>) P u = set_mutex m (UnregisterProcess pm P u) \<and>
   m_mutex (snd (UnregisterProcess pm P u)) = m_mutex pm \<and>
   Clear (pm\<lparr>m_mutex := m\<rparr>) = (Clear pm)\<lparr>m_mutex := m\<rparr> \<and>
   m_mutex (Clear pm) = m_mutex pm"
proof -
  obtain r where r: "RegisterProcessHandler pm P H alloc = Some r"
    using Register_returns [of pm P H alloc] by auto
  then have rm: "m_mutex (snd r) = m_mutex pm"
    using Register_mutex [of pm P H alloc "fst r" "snd r"] by simp
  obtain s where s: "SwitchProcessHandler pm P H alloc = Some s"
    using Switch_returns [of pm P H alloc] by auto
  then have sm: "m_mutex (snd s) = m_mutex pm"
    using Switch_mutex [of pm P H alloc "fst s" "snd s"] by simp
  have g: "GetProcessHandler (pm\<lparr>m_mutex := m\<rparr>) P handler = GetProcessHandler pm P handler"
    by (simp add: GetProcessHandler_def subscript_any_mutex deref_any_mutex split: option.splits)
  have gi: "GetProcessHandler_information (pm\<lparr>m_mutex := m\<rparr>) P information =
     GetProcessHandler_information pm P information"
    by (simp add: GetProcessHandler_information_def subscript_any_mutex deref_any_mutex split: option.splits)
  have b: "ProcessBelongsToHandler (pm\<lparr>m_mutex := m\<rparr>) P H = ProcessBelongsToHandler pm P H"
    by (simp add: ProcessBelongsToHandler_def subscript_any_mutex deref_any_mutex split: option.splits)
  have c: "Clear (pm\<lparr>m_mutex := m\<rparr>) = (Clear pm)\<lparr>m_mutex := m\<rparr>"
    by (simp add: Clear_def)
  from r s rm sm g gi b c show ?thesis
    by (simp add: Initialize_mutex subscript_any_mutex Register_any_mutex Switch_any_mutex
          Unregister_any_mutex Unregister_mutex Clear_mutex)
qed

text \<open>
  C5 as stated fails: an operation that acquired the lock would not return when called
  with the mutex owned, and the methods of the source do.
\<close>

theorem operations_acquire_lock_counterexample:
  "RegisterProcessHandler (sample_empty\<lparr>m_mutex := FastMutexOwned\<rparr>) 7 1 True =
     Some (STATUS_SUCCESS, sample_registered\<lparr>m_mutex := FastMutexOwned\<rparr>) \<and>
   spec_registerHandler (sample_empty\<lparr>m_mutex := FastMutexOwned\<rparr>) 7 1 True = None \<and>
   SwitchProcessHandler (sample_registered\<lparr>m_mutex := FastMutexOwned\<rparr>) 7 2 True =
     Some (STATUS_SUCCESS, sample_delegated\<lparr>m_mutex := FastMutexOwned\<rparr>) \<and>
   spec_switchHandler (sample_registered\<lparr>m_mutex := FastMutexOwned\<rparr>) 7 2 True = None \<and>
   fst (UnregisterProcess (sample_registered\<lparr>m_mutex := FastMutexOwned\<rparr>) 7 zero_information) =
     STATUS_SUCCESS \<and>
   spec_unregister (sample_registered\<lparr>m_mutex := FastMutexOwned\<rparr>) 7 zero_information = None \<and>
   GetProcessHandler (sample_registered\<lparr>m_mutex := FastMutexOwned\<rparr>) 7 (Some 0) =
     (STATUS_SUCCESS, Some 1) \<and>
   spec_getHandler (sample_registered\<lparr>m_mutex := FastMutexOwned\<rparr>) 7 (Some 0) = None \<and>
   ProcessMap_subscript (sample_registered\<lparr>m_mutex := FastMutexOwned\<rparr>) 7 = Some 0 \<and>
   spec_lookup (sample_registered\<lparr>m_mutex := FastMutexOwned\<rparr>) 7 = None \<and>
   ProcessBelongsToHandler (sample_registered\<lparr>m_mutex := FastMutexOwned\<rparr>) 7 1 \<and>
   spec_belongsToHandler (sample_registered\<lparr>m_mutex := FastMutexOwned\<rparr>) 7 1 = None"
proof -
  have a: "spec_locked operation (pm\<lparr>m_mutex := FastMutexOwned\<rparr>) = None"
    for operation :: "ProcessMap \<Rightarrow> ('r \<times> ProcessMap) option" and pm
    by (simp add: spec_locked_def ExAcquireFastMutex_def)
  have u: "fst (UnregisterProcess sample_registered 7 zero_information) = STATUS_SUCCESS"
    by (rule Unregister_present [OF sample_registered_subscript])
  have g: "GetProcessHandler sample_registered 7 (Some 0) = (STATUS_SUCCESS, Some 1)"
    by (simp add: GetProcessHandler_def sample_registered_subscript sample_registered_deref)
  show ?thesis
    by (simp add: Register_any_mutex Switch_any_mutex Unregister_any_mutex set_mutex_def
          sample_register sample_switch u g a spec_registerHandler_def spec_switchHandler_def
          spec_unregister_def spec_getHandler_def spec_lookup_def spec_belongsToHandler_def
          ProcessBelongsToHandler_def GetProcessHandler_def subscript_any_mutex
          deref_any_mutex sample_registered_subscript sample_registered_deref)
qed

text \<open>
  C6. After any sequence of registrations, handoffs, removals and clears from the
  initialised registry (every call of which returns), at most one element of the table
  has the key \<open>P\<close>; and if one has, \<^verbatim>\<open>RegisterProcessHandler\<close> for \<open>P\<close> returns
  \<^verbatim>\<open>STATUS_ALREADY_REGISTERED\<close> and the object is as before: nothing is inserted and
  nothing is overwritten.
\<close>

theorem registry_key_unique:
  "\<exists>pm. run ops (Initialize pm0) = Some pm \<and> length (entries pm P) \<le> 1 \<and>
     (entries pm P \<noteq> [] \<longrightarrow>
        RegisterProcessHandler pm P H alloc = Some (STATUS_ALREADY_REGISTERED, pm))"
proof -
  from run_sorted [OF Initialize_sorted, of ops pm0] obtain pm where
    r: "run ops (Initialize pm0) = Some pm" and s: "table_sorted (m_table pm)"
    by blast
  from sorted_unique [OF s, of P] have "length (entries pm P) \<le> 1"
    by (simp only: entries_def)
  moreover have "RegisterProcessHandler pm P H alloc = Some (STATUS_ALREADY_REGISTERED, pm)"
    if "entries pm P \<noteq> []"
  proof -
    from that subscript_entries [OF s, of P] obtain i where
      "ProcessMap_subscript pm P = Some i" by auto
    then show ?thesis by (rule Register_present)
  qed
  ultimately show ?thesis using r by blast
qed

theorem registry_key_unique_witness:
  "\<exists>pm. run [OpRegister 7 1 True, OpSwitch 7 2 False] (Initialize sample_empty) = Some pm \<and>
     entries pm 7 \<noteq> [] \<and> length (entries pm 7) \<le> 1 \<and>
     RegisterProcessHandler pm 7 5 True = Some (STATUS_ALREADY_REGISTERED, pm)"
proof -
  have "entries sample_delegated 7 \<noteq> []"
    by (simp add: entries_def sample_delegated_def)
  with registry_key_unique
         [of "[OpRegister 7 1 True, OpSwitch 7 2 False]" sample_empty 7 5 True]
       sample_run
  show ?thesis by auto
qed



text \<open>
  C8. \<^verbatim>\<open>UnregisterProcess\<close> for a process without an entry returns
  \<^verbatim>\<open>STATUS_NOT_FOUND\<close> and the object is as before; for a process with an entry, in a
  registry reached from the initialised one, it returns \<^verbatim>\<open>STATUS_SUCCESS\<close> and a second
  call right after it returns \<^verbatim>\<open>STATUS_NOT_FOUND\<close>.
\<close>

theorem UnregisterProcess_absent_and_twice:
  "(ProcessMap_subscript pm P = None \<longrightarrow>
      UnregisterProcess pm P u = (STATUS_NOT_FOUND, pm)) \<and>
   (run ops (Initialize pm0) = Some pm \<and> ProcessMap_subscript pm P \<noteq> None \<longrightarrow>
      (\<exists>pm'. UnregisterProcess pm P u = (STATUS_SUCCESS, pm') \<and>
             UnregisterProcess pm' P u' = (STATUS_NOT_FOUND, pm')))"
proof (intro conjI impI)
  assume "ProcessMap_subscript pm P = None"
  then show "UnregisterProcess pm P u = (STATUS_NOT_FOUND, pm)"
    by (rule Unregister_absent)
next
  assume a: "run ops (Initialize pm0) = Some pm \<and> ProcessMap_subscript pm P \<noteq> None"
  from run_sorted [OF Initialize_sorted, of ops pm0] a have s: "table_sorted (m_table pm)"
    by auto
  from a obtain i where "ProcessMap_subscript pm P = Some i" by auto
  then have 1: "fst (UnregisterProcess pm P u) = STATUS_SUCCESS"
    by (rule Unregister_present)
  let ?pm' = "snd (UnregisterProcess pm P u)"
  from s have "ProcessMap_subscript ?pm' P = None"
    by (rule Unregister_sorted_absent)
  then have 2: "UnregisterProcess ?pm' P u' = (STATUS_NOT_FOUND, ?pm')"
    by (rule Unregister_absent)
  from 1 have "UnregisterProcess pm P u = (STATUS_SUCCESS, ?pm')"
    by (simp add: prod_eq_iff)
  with 2 show "\<exists>pm'. UnregisterProcess pm P u = (STATUS_SUCCESS, pm') \<and>
             UnregisterProcess pm' P u' = (STATUS_NOT_FOUND, pm')"
    by blast
qed

theorem UnregisterProcess_absent_and_twice_witness:
  "ProcessMap_subscript sample_empty 7 = None \<and>
   UnregisterProcess sample_empty 7 zero_information = (STATUS_NOT_FOUND, sample_empty) \<and>
   run [OpRegister 7 1 True, OpSwitch 7 2 False] (Initialize sample_empty) =
     Some sample_delegated \<and>
   ProcessMap_subscript sample_delegated 7 \<noteq> None \<and>
   (\<exists>pm'. UnregisterProcess sample_delegated 7 zero_information = (STATUS_SUCCESS, pm') \<and>
      UnregisterProcess pm' 7 zero_information = (STATUS_NOT_FOUND, pm'))"
proof -
  have "ProcessMap_subscript sample_delegated 7 \<noteq> None"
    by (simp add: sample_delegated_subscript)
  with UnregisterProcess_absent_and_twice
         [of sample_empty 7 zero_information "[]" sample_empty zero_information]
       UnregisterProcess_absent_and_twice
         [of sample_delegated 7 zero_information
             "[OpRegister 7 1 True, OpSwitch 7 2 False]" sample_empty zero_information]
       sample_empty_subscript [of 7] sample_run
  show ?thesis by blast
qed

text \<open>
  C10. \<^verbatim>\<open>SwitchProcessHandler\<close> does not look at whether the new handler is the current
  one: from an entry with the parent flag clear and handler \<open>H\<close>, a handoff to \<open>H\<close>
  itself succeeds, leaves handler and parent handler both \<open>H\<close> with the parent flag set,
  and uses up the one handoff, so that any later one returns \<^verbatim>\<open>STATUS_NOT_IMPLEMENTED\<close>.
\<close>

theorem SwitchProcessHandler_same_handler:
  assumes "ProcessMap_subscript pm P = Some pInfo"
    and "\<not> HasParentHandler (deref pm pInfo)"
    and "Handler (deref pm pInfo) = H"
  shows "\<exists>pm'. SwitchProcessHandler pm P H alloc = Some (STATUS_SUCCESS, pm') \<and>
           GetProcessHandler_information pm' P (Some out) =
             (STATUS_SUCCESS,
              Some \<lparr>Handler = H, HasParentHandler = True,
                    HasInternalParentHandler = True, ParentHandler = H\<rparr>) \<and>
           SwitchProcessHandler pm' P H' alloc' = Some (STATUS_NOT_IMPLEMENTED, pm')"
proof -
  from handoff_registered_information [OF assms(1,2), of H alloc out] assms(3)
  obtain pm' where
    s: "SwitchProcessHandler pm P H alloc = Some (STATUS_SUCCESS, pm')"
    and g: "GetProcessHandler_information pm' P (Some out) =
             (STATUS_SUCCESS,
              Some \<lparr>Handler = H, HasParentHandler = True,
                    HasInternalParentHandler = True, ParentHandler = H\<rparr>)"
    by auto
  from Switch_twice [OF s] have "SwitchProcessHandler pm' P H' alloc' = Some (STATUS_NOT_IMPLEMENTED, pm')" .
  with s g show ?thesis by blast
qed

theorem SwitchProcessHandler_same_handler_witness:
  "ProcessMap_subscript sample_registered 7 = Some 0 \<and>
   \<not> HasParentHandler (deref sample_registered 0) \<and>
   Handler (deref sample_registered 0) = 1 \<and>
   (\<exists>pm'. SwitchProcessHandler sample_registered 7 1 True = Some (STATUS_SUCCESS, pm') \<and>
      GetProcessHandler_information pm' 7 (Some zero_information) =
        (STATUS_SUCCESS,
         Some \<lparr>Handler = 1, HasParentHandler = True,
               HasInternalParentHandler = True, ParentHandler = 1\<rparr>) \<and>
      SwitchProcessHandler pm' 7 1 True = Some (STATUS_NOT_IMPLEMENTED, pm'))"
proof -
  have 1: "\<not> HasParentHandler (deref sample_registered 0)"
    and 2: "Handler (deref sample_registered 0) = 1"
    by (simp_all add: sample_registered_deref)
  from SwitchProcessHandler_same_handler [OF sample_registered_subscript 1 2] 1 2
       sample_registered_subscript
  show ?thesis by blast
qed

section \<open>Properties of the loader\<close>

declare LinuxFail_loop.simps [simp del]

declare spec_decimal.simps [simp del]

subsection \<open>The status buffer is never overrun\<close>

text \<open>
  A write to \<^verbatim>\<open>statusString[length]\<close> with \<^verbatim>\<open>length\<close> beyond 31 would be outside the
  array, where \<open>xs[i := v]\<close> changes nothing. It does not happen: an \<^verbatim>\<open>int\<close> has at most
  ten digits, so that the loop ends with \<^verbatim>\<open>length\<close> at most 12, and with \<^verbatim>\<open>status\<close> zero,
  which is what \<^verbatim>\<open>SYS_exit\<close> then receives.
\<close>

lemma sdiv_10_abs: "\<bar>(k::int) sdiv 10\<bar> = \<bar>k\<bar> div 10"
  by (simp add: signed_divide_int_def abs_mult sgn_if)

lemma LinuxFail_loop_length:
  "\<bar>status\<bar> < 10 ^ k \<Longrightarrow> 0 < k \<Longrightarrow>
   fst (snd (LinuxFail_loop str len status)) \<le> len + k \<and>
   snd (snd (LinuxFail_loop str len status)) = 0"
proof (induction k arbitrary: str len status)
  case 0
  then show ?case by simp
next
  case (Suc k)
  let ?str = "str[len := char_of (status smod 10 + 48)]"
  show ?case
  proof (cases "status sdiv 10 = 0")
    case True
    then show ?thesis
      by (subst (1 2) LinuxFail_loop.simps) (simp add: Let_def)
  next
    case False
    then have "\<bar>status sdiv 10\<bar> \<noteq> 0" by simp
    then have "10 \<le> \<bar>status\<bar>" by (simp add: sdiv_10_abs)
    with Suc.prems have k: "0 < k" by (cases k) auto
    from Suc.prems have "\<bar>status\<bar> < 10 * 10 ^ k" by simp
    then have "\<bar>status\<bar> div 10 < 10 ^ k" by linarith
    then have "\<bar>status sdiv 10\<bar> < 10 ^ k"
      by (simp only: sdiv_10_abs)
    from Suc.IH [OF this k, of ?str "len + 1"]
    have "fst (snd (LinuxFail_loop ?str (len + 1) (status sdiv 10))) \<le> len + 1 + k \<and>
          snd (snd (LinuxFail_loop ?str (len + 1) (status sdiv 10))) = 0" .
    with False show ?thesis
      by (subst (1 2) LinuxFail_loop.simps) (simp add: Let_def)
  qed
qed

lemma int_wrap_range: "- (2 ^ 31) \<le> int_wrap k \<and> int_wrap k < 2 ^ 31"
  by (simp add: int_wrap_def)

lemma LinuxFail_in_bounds:
  "fst (snd (LinuxFail_loop ('': '' @ replicate 30 (CHR 0x00)) 2 (int_wrap (- status)))) \<le> 12"
proof -
  from int_wrap_range [of "- status"] have "\<bar>int_wrap (- status)\<bar> < 10 ^ 10"
    by (simp add: abs_less_iff)
  from LinuxFail_loop_length [OF this, of "'': '' @ replicate 30 (CHR 0x00)" 2]
  show ?thesis by simp
qed

lemma LinuxFail_exit_0:
  "last (LinuxFail message messageSize status) = Syscall SYS_exit [Val 0]"
proof -
  from int_wrap_range [of "- status"] have "\<bar>int_wrap (- status)\<bar> < 10 ^ 10"
    by (simp add: abs_less_iff)
  from LinuxFail_loop_length [OF this, of "'': '' @ replicate 30 (CHR 0x00)" 2]
  show ?thesis
    by (cases "LinuxFail_loop ('': '' @ replicate 30 (CHR 0x00)) 2 (int_wrap (- status))")
       (simp add: LinuxFail_def)
qed

subsection \<open>What \<^verbatim>\<open>LinuxFail\<close> writes\<close>


lemma decimal_length_pos: "0 < length (spec_decimal n)"
  by (subst spec_decimal.simps) simp

lemma decimal_length_bound: "n < 10 ^ k \<Longrightarrow> 0 < k \<Longrightarrow> length (spec_decimal n) \<le> k"
proof (induction k arbitrary: n)
  case 0
  then show ?case by simp
next
  case (Suc k)
  show ?case
  proof (cases "n < 10")
    case True
    then show ?thesis by (subst spec_decimal.simps) simp
  next
    case False
    with Suc.prems have "n div 10 < 10 ^ k" and "0 < k"
      by (auto simp: less_mult_imp_div_less intro: Suc_lessI gr0I)
    with Suc.IH have "length (spec_decimal (n div 10)) \<le> k" by simp
    with False show ?thesis by (subst spec_decimal.simps) simp
  qed
qed

lemma LinuxFail_loop_digits:
  "0 < n \<Longrightarrow> len + length (spec_decimal n) \<le> length str \<Longrightarrow>
   LinuxFail_loop str len (int n) =
     (take len str @ rev (spec_decimal n) @ drop (len + length (spec_decimal n)) str,
      len + length (spec_decimal n), 0)"
proof (induction n arbitrary: str len rule: spec_decimal.induct)
  case (1 n)
  have m: "int n smod 10 = int (n mod 10)" and d: "int n sdiv 10 = int (n div 10)"
    using \<open>0 < n\<close> by (simp_all add: signed_modulo_int_def signed_divide_int_def zmod_int zdiv_int)
  have c: "char_of (int n smod 10 + 48) = char_of (48 + n mod 10)"
  proof -
    have "int n smod 10 + 48 = int (48 + n mod 10)" using m by simp
    then show ?thesis by (simp only: char_of_nat)
  qed
  have "0 < length (spec_decimal n)" by (rule decimal_length_pos)
  with "1.prems" have l: "len < length str" by linarith
  show ?case
  proof (cases "n < 10")
    case True
    then have dec: "spec_decimal n = [char_of (48 + n)]"
      by (subst spec_decimal.simps) simp
    from True have "int n sdiv 10 = 0" using d by simp
    with True l c dec show ?thesis
      by (subst LinuxFail_loop.simps) (simp add: Let_def upd_conv_take_nth_drop)
  next
    case False
    then have dec: "spec_decimal n = spec_decimal (n div 10) @ [char_of (48 + n mod 10)]"
      by (subst spec_decimal.simps) simp
    let ?c = "char_of (48 + n mod 10) :: char"
    let ?k = "length (spec_decimal (n div 10))"
    from False have pos: "0 < n div 10" by (simp add: div_greater_zero_iff)
    from "1.prems" dec have b: "Suc len + ?k \<le> length (str[len := ?c])" by simp
    from "1.IH" [OF False pos b]
    have "LinuxFail_loop (str[len := ?c]) (Suc len) (int (n div 10)) =
            (take (Suc len) (str[len := ?c]) @ rev (spec_decimal (n div 10)) @
               drop (Suc len + ?k) (str[len := ?c]),
             Suc len + ?k, 0)" .
    moreover have "take (Suc len) (str[len := ?c]) = take len str @ [?c]"
      using l by (simp add: take_Suc_conv_app_nth)
    moreover have "drop (Suc len + ?k) (str[len := ?c]) = drop (Suc len + ?k) str"
      by simp
    ultimately have r: "LinuxFail_loop (str[len := ?c]) (Suc len) (int (n div 10)) =
            (take len str @ rev (spec_decimal n) @ drop (len + length (spec_decimal n)) str,
             len + length (spec_decimal n), 0)"
      using dec by simp
    from pos have "int n sdiv 10 \<noteq> 0" using d by simp
    with r c d show ?thesis
      by (subst LinuxFail_loop.simps) (simp add: Let_def)
  qed
qed

lemma int_wrap_id: "- (2 ^ 31) \<le> k \<Longrightarrow> k < 2 ^ 31 \<Longrightarrow> int_wrap k = k"
  by (simp add: int_wrap_def)

lemma LinuxFail_reversed:
  assumes "status < 0" and "- (2 ^ 31) < status"
  shows "LinuxFail message messageSize status =
           [Syscall SYS_write [Val 2, Ptr message, Val (int messageSize)],
            Syscall SYS_write
              [Val 2,
               Ptr ('': '' @ rev (spec_decimal (nat (- status))) @ CHR 0x0A #
                    replicate (29 - length (spec_decimal (nat (- status)))) (CHR 0x00)),
               Val (int (3 + length (spec_decimal (nat (- status)))))],
            Syscall SYS_exit [Val 0]]"
proof -
  let ?n = "nat (- status)"
  let ?k = "length (spec_decimal ?n)"
  let ?buf = "'': '' @ replicate 30 (CHR 0x00)"
  from assms have w: "int_wrap (- status) = int ?n"
    by (simp add: int_wrap_id)
  from assms have "?n < 10 ^ 10" by simp
  then have k: "?k \<le> 10" by (rule decimal_length_bound) simp
  from assms have "0 < ?n" by simp
  moreover from k have "2 + ?k \<le> length ?buf" by simp
  ultimately have loop: "LinuxFail_loop ?buf 2 (int ?n) =
      (take 2 ?buf @ rev (spec_decimal ?n) @ drop (2 + ?k) ?buf, 2 + ?k, 0)"
    by (rule LinuxFail_loop_digits)
  have t: "take 2 ?buf = '': ''" by simp
  have dr: "drop (2 + ?k) ?buf = replicate (30 - ?k) (CHR 0x00)" by simp
  have "('': '' @ rev (spec_decimal ?n) @ replicate (30 - ?k) (CHR 0x00))[2 + ?k := CHR 0x0A] =
        '': '' @ rev (spec_decimal ?n) @ CHR 0x0A # replicate (29 - ?k) (CHR 0x00)"
  proof -
    from k obtain m where m: "30 - ?k = Suc m" "29 - ?k = m"
      by (cases "30 - ?k") auto
    have "('': '' @ rev (spec_decimal ?n) @ replicate (Suc m) (CHR 0x00))[2 + ?k := CHR 0x0A] =
          '': '' @ rev (spec_decimal ?n) @ CHR 0x0A # replicate m (CHR 0x00)"
      by (simp add: list_update_append)
    with m show ?thesis by simp
  qed
  with loop t dr w show ?thesis
    by (simp add: LinuxFail_def Let_def)
qed

lemma LinuxFail_written:
  assumes "status < 0" and "- (2 ^ 31) < status"
  shows "written (LinuxFail message messageSize status ! 1) =
           '': '' @ rev (spec_decimal (nat (- status))) @ ''\<newline>''"
proof -
  have e: "nat (3 + int (length (spec_decimal (nat (- status))))) =
           Suc (Suc (Suc (length (spec_decimal (nat (- status))))))"
    by simp
  show ?thesis
    by (simp add: LinuxFail_reversed [OF assms] e)
qed

subsection \<open>The mode of the device node\<close>


section \<open>The claims about the loader\<close>

text \<open>
  C4. The fail-and-terminate path writes the message and the status line to descriptor 2
  and exits, all through the raw call, but the digits of the status line are in the order
  the loop produces them, least significant first: for the status \<open>- 13\<close> the line
  written is \<^verbatim>\<open>": 31"\<close> and a newline, where the decimal rendering of 13 gives
  \<^verbatim>\<open>": 13"\<close> and a newline.
\<close>

theorem LinuxFail_digits_reversed:
  "LinuxFail ''Cannot open the reality device'' 30 (- 13) =
     [Syscall SYS_write [Val 2, Ptr ''Cannot open the reality device'', Val 30],
      Syscall SYS_write [Val 2, Ptr ('': 31\<newline>'' @ replicate 27 (CHR 0x00)), Val 5],
      Syscall SYS_exit [Val 0]] \<and>
   written (LinuxFail ''Cannot open the reality device'' 30 (- 13) ! 1) = '': 31\<newline>'' \<and>
   '': '' @ spec_decimal 13 @ ''\<newline>'' = '': 13\<newline>''"
proof -
  have d: "spec_decimal 13 = ''13''"
    by code_simp
  have "nat (- (- 13)) = 13" by simp
  with LinuxFail_reversed [of "- 13" "''Cannot open the reality device''" 30] d
  have "LinuxFail ''Cannot open the reality device'' 30 (- 13) =
     [Syscall SYS_write [Val 2, Ptr ''Cannot open the reality device'', Val 30],
      Syscall SYS_write [Val 2, Ptr ('': 31\<newline>'' @ replicate 27 (CHR 0x00)), Val 5],
      Syscall SYS_exit [Val 0]]"
    by simp
  with d show ?thesis by simp
qed



end
